theory Spec2Isabelle
  imports Complex_Main
begin

unbundle bit_operations_syntax

section \<open>The forward pass of \<open>implied_free_action\<close> (CoinPresolveImpliedFree.cpp)\<close>

text \<open>
  A shallow embedding of \<open>implied_free_action::presolve\<close>. The C++ function is one long
  body; each loop and each block of it is a definition here, named after the variable or
  the comment that heads it in the source, and the line numbers of the source are given.

  Conventions of the embedding.
  \<^item> A \<open>double\<close> is a \<open>real\<close>: sums, products and comparisons are exact, there is no
    rounding, no overflow to infinity and no NaN. The literals \<open>1.0e20\<close>, \<open>1.0e31\<close>,
    \<open>1.0e-12\<close> and \<open>1.0e8\<close> are the rationals they denote.
  \<^item> A C array is a list read with \<open>!\<close> and written with \<open>list_update\<close>. Counts and
    indices that the matrix keeps nonnegative (\<open>hincol_\<close>, \<open>hinrow_\<close>, \<open>mcstrt_\<close>,
    \<open>hrow_\<close>, ...) are \<open>nat\<close>; the arrays that hold the markers \<open>-1\<close>, \<open>-2\<close>, \<open>-3\<close>
    (\<open>infiniteUp\<close>, \<open>implied_free\<close>) are \<open>int\<close> lists.
  \<^item> The constants \<open>ZTOLDP\<close>, \<open>COIN_DBL_MAX\<close>, \<open>PRESOLVE_INF\<close>, the macro \<open>NDEBUG\<close>
    that decides whether \<open>assert\<close> is compiled in, and the helper \<open>implied_bounds\<close> are
    declared in headers and files that are not part of the source at hand; they are the
    fields of an environment record that every definition takes as its first argument.
  \<^item> The two collaborating passes \<open>isolated_constraint_action::presolve\<close> and
    \<open>subst_constraint_action::presolve\<close> are parameters of the top-level function.
\<close>

subsection \<open>Environment and problem state\<close>

record env =
  ZTOLDP :: real
  COIN_DBL_MAX :: real
  PRESOLVE_INF :: real
  NDEBUG :: bool
  implied_bounds ::
    "real list \<Rightarrow> real list \<Rightarrow> real list \<Rightarrow> nat list \<Rightarrow> nat \<Rightarrow> nat \<Rightarrow> nat \<Rightarrow> real \<Rightarrow> real
      \<Rightarrow> real \<times> real \<times> real \<times> real"
  \<comment> \<open>\<open>implied_bounds rowels clo cup hcol krs kre j rlo rup = (maxup, maxdown, ilow, iup)\<close>\<close>

text \<open>The fields of \<open>CoinPresolveMatrix\<close> that the pass reads or writes (lines 50-75),
  the message handler's output as a list of \<open>COIN_PRESOLVE_ROWINFEAS\<close> records
  (row, \<open>rlo[row]\<close>, \<open>rup[row]\<close>), and the objective bias changed by \<open>change_bias\<close>.\<close>

record prob =
  colels :: "real list"
  hrow :: "nat list"
  mcstrt :: "nat list"
  hincol :: "nat list"
  ncols :: nat
  clo :: "real list"
  cup :: "real list"
  rowels :: "real list"
  hcol :: "nat list"
  mrstrt :: "nat list"
  hinrow :: "nat list"
  nrows :: nat
  rlo :: "real list"
  rup :: "real list"
  cost :: "real list"
  rlink :: "nat list"
  clink :: "nat list"
  integerType :: "nat list"
  feasibilityTolerance :: real
  status :: int
  numberColsToDo :: nat
  colsToDo :: "nat list"
  nextColsToDo :: "nat list"
  dobias :: real
  messages :: "(nat \<times> real \<times> real) list"

text \<open>The arrays allocated by the pass itself (lines 82-100).\<close>

record work =
  implied_free :: "int list"
  infiniteDown :: "int list"
  infiniteUp :: "int list"
  maxDown :: "real list"
  maxUp :: "real list"

definition large :: real where
  "large = 10 ^ 20"

text \<open>Lines 82-100: \<open>implied_free\<close> is all \<open>-1\<close>; \<open>infiniteUp[i]\<close> is \<open>-1\<close> (not computed)
  for a row with more than one entry and \<open>-2\<close> (give up, singleton) otherwise. The other
  three arrays are uninitialised in the source and are read only at rows whose
  \<open>infiniteUp\<close> is nonnegative, that is after line 218-221 has stored them; the model
  fills them with zeros.\<close>

definition init_work :: "prob \<Rightarrow> work" where
  "init_work p =
     \<lparr> implied_free = replicate (ncols p) (-1),
       infiniteDown = replicate (nrows p) 0,
       infiniteUp = map (\<lambda>i. if hinrow p ! i > 1 then -1 else -2) [0..<nrows p],
       maxDown = replicate (nrows p) 0,
       maxUp = replicate (nrows p) 0 \<rparr>"

text \<open>Lines 103-114: the columns to visit, in order.\<close>

definition look :: "prob \<Rightarrow> int \<Rightarrow> nat list" where
  "look p fill_level =
     (if fill_level < 0 then [0..<ncols p] else take (numberColsToDo p) (colsToDo p))"

text \<open>The positions of the entries of column \<open>j\<close> in \<open>hrow_\<close> and \<open>colels_\<close> (from \<open>kcs\<close>
  up to \<open>kce\<close>), and of the entries of a row in \<open>hcol_\<close> and \<open>rowels_\<close> (from \<open>krs\<close> up to
  \<open>kre\<close>).\<close>

definition col_entries :: "prob \<Rightarrow> nat \<Rightarrow> nat list" where
  "col_entries p j = [mcstrt p ! j ..< mcstrt p ! j + hincol p ! j]"

definition row_entries :: "prob \<Rightarrow> nat \<Rightarrow> nat list" where
  "row_entries p row = [mrstrt p ! row ..< mrstrt p ! row + hinrow p ! row]"

subsection \<open>Row activity (lines 152-222)\<close>

record activity =
  infiniteUpper :: int
  infiniteLower :: int
  maximumUp :: real
  maximumDown :: real

text \<open>The body of the loop of lines 160-186 for one entry \<open>kk\<close> of the row.\<close>

definition activity_entry :: "prob \<Rightarrow> nat \<Rightarrow> activity \<Rightarrow> activity" where
  "activity_entry p kk a =
     (let v = rowels p ! kk; iColumn = hcol p ! kk in
      if v > 0 then
        (let a1 = (if cup p ! iColumn \<ge> large
                   then a\<lparr>infiniteUpper := infiniteUpper a + 1\<rparr>
                   else a\<lparr>maximumUp := maximumUp a + cup p ! iColumn * v\<rparr>)
         in if clo p ! iColumn \<le> - large
            then a1\<lparr>infiniteLower := infiniteLower a1 + 1\<rparr>
            else a1\<lparr>maximumDown := maximumDown a1 + clo p ! iColumn * v\<rparr>)
      else if v < 0 then
        (let a1 = (if cup p ! iColumn \<ge> large
                   then a\<lparr>infiniteLower := infiniteLower a + 1\<rparr>
                   else a\<lparr>maximumDown := maximumDown a + cup p ! iColumn * v\<rparr>)
         in if clo p ! iColumn \<le> - large
            then a1\<lparr>infiniteUpper := infiniteUpper a1 + 1\<rparr>
            else a1\<lparr>maximumUp := maximumUp a1 + clo p ! iColumn * v\<rparr>)
      else a)"

definition row_activity :: "prob \<Rightarrow> nat \<Rightarrow> activity" where
  "row_activity p row =
     fold (activity_entry p) (row_entries p row)
       \<lparr> infiniteUpper = 0, infiniteLower = 0, maximumUp = 0, maximumDown = 0 \<rparr>"

text \<open>Lines 187-188.\<close>

definition maxUpx :: "activity \<Rightarrow> real" where
  "maxUpx a = maximumUp a + of_int (infiniteUpper a) * 10 ^ 31"

definition maxDownx :: "activity \<Rightarrow> real" where
  "maxDownx a = maximumDown a - of_int (infiniteLower a) * 10 ^ 31"

text \<open>The four-way test of lines 189-222, on the row's bounds and the tolerance.\<close>

datatype row_class = Redundant | Infeasible | Summary

definition classify :: "real \<Rightarrow> real \<Rightarrow> real \<Rightarrow> activity \<Rightarrow> row_class" where
  "classify tol rlo_row rup_row a =
     (if maxUpx a \<le> rup_row + tol \<and> maxDownx a \<ge> rlo_row - tol then Redundant
      else if maxUpx a < rlo_row - tol then Infeasible
      else if maxDownx a > rup_row + tol then Infeasible
      else Summary)"

text \<open>\<open>prob->status_ |= 1\<close> followed by the \<open>COIN_PRESOLVE_ROWINFEAS\<close> message
  (lines 197-203, 208-214, 419-425, 429-435).\<close>

definition row_infeasible :: "prob \<Rightarrow> nat \<Rightarrow> prob" where
  "row_infeasible p row =
     p\<lparr> status := status p OR 1,
        messages := messages p @ [(row, rlo p ! row, rup p ! row)] \<rparr>"

text \<open>Lines 151-222, entered when \<open>infiniteUp[row] == -1\<close>. The Boolean is True when the
  block leaves the loop over the column's rows through \<open>break\<close> (lines 205, 216).\<close>

definition compute_row :: "prob \<Rightarrow> work \<Rightarrow> nat \<Rightarrow> bool \<times> prob \<times> work" where
  "compute_row p w row =
     (let a = row_activity p row in
      case classify (feasibilityTolerance p) (rlo p ! row) (rup p ! row) a of
        Redundant \<Rightarrow> (False, p, w\<lparr>infiniteUp := (infiniteUp w)[row := -3]\<rparr>)
      | Infeasible \<Rightarrow> (True, row_infeasible p row, w\<lparr>infiniteUp := (infiniteUp w)[row := -3]\<rparr>)
      | Summary \<Rightarrow>
          (False, p,
           w\<lparr> infiniteUp := (infiniteUp w)[row := infiniteUpper a],
              infiniteDown := (infiniteDown w)[row := infiniteLower a],
              maxUp := (maxUp w)[row := maximumUp a],
              maxDown := (maxDown w)[row := maximumDown a] \<rparr>))"

text \<open>Lines 150-223: the summary of the row is computed when it is marked \<open>-1\<close>, and
  taken as it is stored otherwise.\<close>

definition fetch_row :: "prob \<Rightarrow> work \<Rightarrow> nat \<Rightarrow> bool \<times> prob \<times> work" where
  "fetch_row p w row = (if infiniteUp w ! row = -1 then compute_row p w row else (False, p, w))"

subsection \<open>Bounds on the column implied by one row (lines 224-363)\<close>

text \<open>The local variables of the block. \<open>nowLower\<close>, \<open>nowUpper\<close> and the four activity
  figures are copies made at lines 228-234; the block changes the copies only.\<close>

record tighten = activity +
  nowLower :: real
  nowUpper :: real
  low :: real
  high :: real

text \<open>\<open>relax if original was large\<close>: lines 243-244, 248-249, 306-308, ... with
  \<open>s = -1\<close> where the source subtracts and \<open>s = 1\<close> where it adds.\<close>

definition relax :: "real \<Rightarrow> real \<Rightarrow> real \<Rightarrow> real" where
  "relax s m newBound =
     (if \<bar>m\<bar> > 10 ^ 8 then newBound + s * (1 / 10 ^ 12) * \<bar>m\<bar> else newBound)"

text \<open>An \<open>assert\<close> that fails stops the program unless \<open>NDEBUG\<close> is defined.\<close>

definition assert_ok :: "env \<Rightarrow> bool \<Rightarrow> bool" where
  "assert_ok E b = (NDEBUG E \<or> b)"

text \<open>Lines 237-267: positive coefficient, the row has a lower bound.\<close>

definition pos_lower :: "env \<Rightarrow> real \<Rightarrow> real \<Rightarrow> tighten \<Rightarrow> tighten option" where
  "pos_lower E lower v t =
     (if infiniteUpper t = 0 \<and> \<not> assert_ok E (nowUpper t < large) then None
      else
        let newBound =
              (if infiniteUpper t = 0
               then relax (-1) (maximumUp t) (nowUpper t + (lower - maximumUp t) / v)
               else if infiniteUpper t = 1 \<and> nowUpper t > large
               then relax (-1) (maximumUp t) ((lower - maximumUp t) / v)
               else - COIN_DBL_MAX E);
            t1 = (if newBound > nowLower t + 1 / 10 ^ 12
                  then (if nowLower t < - large
                        then t\<lparr> infiniteLower := infiniteLower t - 1,
                                maximumDown := maximumDown t + (newBound - 0) * v,
                                nowLower := newBound \<rparr>
                        else t\<lparr> maximumDown := maximumDown t + (newBound - nowLower t) * v,
                                nowLower := newBound \<rparr>)
                  else t)
        in Some (t1\<lparr> low := max (low t1) newBound \<rparr>))"

text \<open>Lines 268-298: positive coefficient, the row has an upper bound.\<close>

definition pos_upper :: "env \<Rightarrow> real \<Rightarrow> real \<Rightarrow> tighten \<Rightarrow> tighten option" where
  "pos_upper E upper v t =
     (if infiniteLower t = 0 \<and> \<not> assert_ok E (nowLower t > - large) then None
      else
        let newBound =
              (if infiniteLower t = 0
               then relax 1 (maximumDown t) (nowLower t + (upper - maximumDown t) / v)
               else if infiniteLower t = 1 \<and> nowLower t < - large
               then relax 1 (maximumDown t) ((upper - maximumDown t) / v)
               else COIN_DBL_MAX E);
            t1 = (if newBound < nowUpper t - 1 / 10 ^ 12
                  then (if nowUpper t > large
                        then t\<lparr> infiniteUpper := infiniteUpper t - 1,
                                maximumUp := maximumUp t + (newBound - 0) * v,
                                nowUpper := newBound \<rparr>
                        else t\<lparr> maximumUp := maximumUp t + (newBound - nowUpper t) * v,
                                nowUpper := newBound \<rparr>)
                  else t)
        in Some (t1\<lparr> high := min (high t1) newBound \<rparr>))"

text \<open>Lines 301-331: negative coefficient, the row has a lower bound.\<close>

definition neg_lower :: "env \<Rightarrow> real \<Rightarrow> real \<Rightarrow> tighten \<Rightarrow> tighten option" where
  "neg_lower E lower v t =
     (if infiniteUpper t = 0 \<and> \<not> assert_ok E (nowLower t > - large) then None
      else
        let newBound =
              (if infiniteUpper t = 0
               then relax 1 (maximumUp t) (nowLower t + (lower - maximumUp t) / v)
               else if infiniteUpper t = 1 \<and> nowLower t < - large
               then relax 1 (maximumUp t) ((lower - maximumUp t) / v)
               else COIN_DBL_MAX E);
            t1 = (if newBound < nowUpper t - 1 / 10 ^ 12
                  then (if nowUpper t > large
                        then t\<lparr> infiniteLower := infiniteLower t - 1,
                                maximumDown := maximumDown t + (newBound - 0) * v,
                                nowUpper := newBound \<rparr>
                        else t\<lparr> maximumDown := maximumDown t + (newBound - nowUpper t) * v,
                                nowUpper := newBound \<rparr>)
                  else t)
        in Some (t1\<lparr> high := min (high t1) newBound \<rparr>))"

text \<open>Lines 332-362: negative coefficient, the row has an upper bound.\<close>

definition neg_upper :: "env \<Rightarrow> real \<Rightarrow> real \<Rightarrow> tighten \<Rightarrow> tighten option" where
  "neg_upper E upper v t =
     (if infiniteLower t = 0 \<and> \<not> assert_ok E (nowUpper t < large) then None
      else
        let newBound =
              (if infiniteLower t = 0
               then relax (-1) (maximumDown t) (nowUpper t + (upper - maximumDown t) / v)
               else if infiniteLower t = 1 \<and> nowUpper t > large
               then relax (-1) (maximumDown t) ((upper - maximumDown t) / v)
               else - COIN_DBL_MAX E);
            t1 = (if newBound > nowLower t + 1 / 10 ^ 12
                  then (if nowLower t < - large
                        then t\<lparr> infiniteUpper := infiniteUpper t - 1,
                                maximumUp := maximumUp t + (newBound - 0) * v,
                                nowLower := newBound \<rparr>
                        else t\<lparr> maximumUp := maximumUp t + (newBound - nowLower t) * v,
                                nowLower := newBound \<rparr>)
                  else t)
        in Some (t1\<lparr> low := max (low t1) newBound \<rparr>))"

text \<open>Lines 225-363 for column \<open>j\<close>, its coefficient \<open>coeffj\<close> and a row whose summary is
  stored: the new \<open>(low, high)\<close>, or \<open>None\<close> when an assertion fails.\<close>

definition row_bounds ::
    "env \<Rightarrow> prob \<Rightarrow> work \<Rightarrow> nat \<Rightarrow> nat \<Rightarrow> real \<Rightarrow> real \<times> real \<Rightarrow> (real \<times> real) option" where
  "row_bounds E p w j row coeffj lh =
     (let lower = rlo p ! row; upper = rup p ! row; v = coeffj;
          t0 = \<lparr> infiniteUpper = infiniteUp w ! row, infiniteLower = infiniteDown w ! row,
                 maximumUp = maxUp w ! row, maximumDown = maxDown w ! row,
                 nowLower = clo p ! j, nowUpper = cup p ! j,
                 low = fst lh, high = snd lh \<rparr>;
          r1 = (if v > 0
                then (if lower > - large then pos_lower E lower v t0 else Some t0)
                else (if lower > - large then neg_lower E lower v t0 else Some t0))
      in case r1 of
           None \<Rightarrow> None
         | Some t1 \<Rightarrow>
             (case (if v > 0
                    then (if upper < large then pos_upper E upper v t1 else Some t1)
                    else (if upper < large then neg_upper E upper v t1 else Some t1)) of
                None \<Rightarrow> None
              | Some t2 \<Rightarrow> Some (low t2, high t2)))"

subsection \<open>The scan of a column with two or three entries (lines 119-398)\<close>

text \<open>Lines 123-141: is some row of the column an equality row with a significant
  coefficient (\<open>possible\<close>), is some row a singleton row (\<open>singleton\<close>), and the largest
  coefficient magnitude over the rows that are not.\<close>

definition prescan_entry :: "env \<Rightarrow> prob \<Rightarrow> nat \<Rightarrow> bool \<times> bool \<times> real \<Rightarrow> bool \<times> bool \<times> real" where
  "prescan_entry E p k s =
     (let row = hrow p ! k; coeffj = colels p ! k;
          possible = fst s; singleton = fst (snd s); largestElement = snd (snd s)
      in if hinrow p ! row > 1
         then (possible \<or> (\<bar>rlo p ! row - rup p ! row\<bar> < feasibilityTolerance p \<and> \<bar>coeffj\<bar> > ZTOLDP E),
               singleton, max largestElement \<bar>coeffj\<bar>)
         else (possible, True, largestElement))"

definition prescan :: "env \<Rightarrow> prob \<Rightarrow> nat list \<Rightarrow> bool \<times> bool \<times> real" where
  "prescan E p ks = fold (prescan_entry E p) ks (False, False, 0)"

text \<open>How the body of the loop of lines 146-371 over the rows of the column ends: it
  runs to its end (\<open>Finished\<close>), it leaves the loop through the \<open>break\<close> of line 368 (give
  up) or of line 205 or 216 (the row is infeasible), or an assertion fails. The loop ends
  the same ways.\<close>

datatype scan_exit = Finished | GaveUp | RowInfeasible | AssertFailed

type_synonym range = "real \<times> real"
type_synonym state = "prob \<times> work"

text \<open>Lines 143-144 and 366-367: \<open>low = -COIN_DBL_MAX\<close>, \<open>high = COIN_DBL_MAX\<close>.\<close>

definition unbounded :: "env \<Rightarrow> range" where
  "unbounded E = (- COIN_DBL_MAX E, COIN_DBL_MAX E)"

text \<open>Lines 147-370: the body of the loop for the entry \<open>k\<close> of column \<open>j\<close>, on the pair
  \<open>(low, high)\<close> and the state.\<close>

definition scan_row :: "env \<Rightarrow> nat \<Rightarrow> nat \<Rightarrow> range \<Rightarrow> state \<Rightarrow> scan_exit \<times> range \<times> state" where
  "scan_row E j k lh pw =
     (let p = fst pw; w = snd pw; row = hrow p ! k; coeffj = colels p ! k in
      if \<bar>coeffj\<bar> > ZTOLDP E then
        (case fetch_row p w row of
           (True, pw') \<Rightarrow> (RowInfeasible, lh, pw')
         | (False, p', w') \<Rightarrow>
             if infiniteUp w' ! row \<ge> 0 then
               (case row_bounds E p' w' j row coeffj lh of
                  None \<Rightarrow> (AssertFailed, lh, p', w')
                | Some lh' \<Rightarrow> (Finished, lh', p', w'))
             else if infiniteUp w' ! row = -3 then (GaveUp, unbounded E, p', w')
             else (Finished, lh, p', w'))
      else (Finished, lh, pw))"

fun scan_rows :: "env \<Rightarrow> nat \<Rightarrow> nat list \<Rightarrow> range \<Rightarrow> state \<Rightarrow> scan_exit \<times> range \<times> state" where
  "scan_rows E j [] lh pw = (Finished, lh, pw)"
| "scan_rows E j (k # ks) lh pw =
     (case scan_row E j k lh pw of
        (Finished, lh', pw') \<Rightarrow> scan_rows E j ks lh' pw'
      | (ex, lh', pw') \<Rightarrow> (ex, lh', pw'))"

text \<open>Lines 143-371: the loop over all rows of column \<open>j\<close>, from \<open>(low, high)\<close> unbounded.\<close>

definition column_rows :: "env \<Rightarrow> nat \<Rightarrow> state \<Rightarrow> scan_exit \<times> range \<times> state" where
  "column_rows E j pw = scan_rows E j (col_entries (fst pw) j) (unbounded E) pw"

text \<open>Lines 377-389: the equality row of the column with a coefficient above
  \<open>largestElement\<close> (already multiplied by 0.1) and the fewest entries; \<open>krow\<close> stays
  \<open>-1\<close> when there is none.\<close>

definition pick_entry :: "prob \<Rightarrow> real \<Rightarrow> nat \<Rightarrow> int \<times> nat \<Rightarrow> int \<times> nat" where
  "pick_entry p largestElement k s =
     (let row = hrow p ! k; coeffj = colels p ! k; krow = fst s; ninrow = snd s
      in if \<bar>rlo p ! row - rup p ! row\<bar> < feasibilityTolerance p \<and> \<bar>coeffj\<bar> > largestElement
         then (if hinrow p ! row < ninrow then (int row, hinrow p ! row) else (krow, ninrow))
         else (krow, ninrow))"

definition pick_row :: "prob \<Rightarrow> real \<Rightarrow> nat list \<Rightarrow> int" where
  "pick_row p largestElement ks = fst (fold (pick_entry p largestElement) ks (-1, ncols p + 1))"

text \<open>What the body of the loop over the columns (line 116) does to the loop: go on
  with the next column, leave the loop (\<open>break\<close>), or stop the program (assertion).\<close>

datatype ctl = Continue | Break | Abort

text \<open>Lines 372-397: the acceptance test on the accumulated \<open>(low, high)\<close> and the
  choice of the row.\<close>

definition accept_column :: "prob \<Rightarrow> work \<Rightarrow> nat \<Rightarrow> real \<Rightarrow> range \<Rightarrow> work" where
  "accept_column p w j largestElement lh =
     (if clo p ! j \<le> fst lh \<and> snd lh \<le> cup p ! j then
        (let krow = pick_row p (largestElement * (1 / 10)) (col_entries p j) in
         if krow \<ge> 0
         then w\<lparr> implied_free := (implied_free w)[j := krow],
                 infiniteUp := (infiniteUp w)[nat krow := -3] \<rparr>
         else w)
      else w)"

definition multi_column :: "env \<Rightarrow> nat \<Rightarrow> state \<Rightarrow> ctl \<times> state" where
  "multi_column E j pw =
     (let pre = prescan E (fst pw) (col_entries (fst pw) j);
          possible = fst pre; singleton = fst (snd pre); largestElement = snd (snd pre)
      in if possible \<and> \<not> singleton then
           (case column_rows E j pw of
              (AssertFailed, lh, pw') \<Rightarrow> (Abort, pw')
            | (ex, lh, p', w') \<Rightarrow> (Continue, p', accept_column p' w' j largestElement lh))
         else (Continue, pw))"

subsection \<open>The scan of a singleton column (lines 399-446)\<close>

text \<open>The guard of lines 404-405.\<close>

definition singleton_guard :: "env \<Rightarrow> prob \<Rightarrow> work \<Rightarrow> nat \<Rightarrow> bool" where
  "singleton_guard E p w j =
     (let k = mcstrt p ! j; row = hrow p ! k; coeffj = colels p ! k in
      (cost p ! j = 0 \<or> rlo p ! row = rup p ! row) \<and> hinrow p ! row > 1 \<and>
      \<bar>coeffj\<bar> > ZTOLDP E \<and> infiniteUp w ! row \<noteq> -3)"

text \<open>Lines 407-414: the call of \<open>implied_bounds\<close> for the row of the singleton column.\<close>

definition singleton_bounds :: "env \<Rightarrow> prob \<Rightarrow> nat \<Rightarrow> real \<times> real \<times> real \<times> real" where
  "singleton_bounds E p j =
     (let row = hrow p ! (mcstrt p ! j); krs = mrstrt p ! row; kre = krs + hinrow p ! row
      in implied_bounds E (rowels p) (clo p) (cup p) (hcol p) krs kre j (rlo p ! row) (rup p ! row))"

definition singleton_column :: "env \<Rightarrow> nat \<Rightarrow> state \<Rightarrow> ctl \<times> state" where
  "singleton_column E j pw =
     (let p = fst pw; w = snd pw; row = hrow p ! (mcstrt p ! j);
          tol = feasibilityTolerance p
      in if singleton_guard E p w j then
           (let ib = singleton_bounds E p j;
                maxup = fst ib; maxdown = fst (snd ib);
                ilow = fst (snd (snd ib)); iup = snd (snd (snd ib))
            in if maxup < PRESOLVE_INF E \<and> maxup + tol < rlo p ! row
               then (Break, row_infeasible p row, w)
               else if - PRESOLVE_INF E < maxdown \<and> rup p ! row < maxdown - tol
               then (Break, row_infeasible p row, w)
               else if clo p ! j \<le> ilow \<and> iup \<le> cup p ! j
               then (Continue, p, w\<lparr> implied_free := (implied_free w)[j := int row],
                                      infiniteUp := (infiniteUp w)[row := -3] \<rparr>)
               else (Continue, pw))
         else (Continue, pw))"

subsection \<open>The loop over the columns to look at (lines 116-448)\<close>

definition scan_column :: "env \<Rightarrow> nat \<Rightarrow> state \<Rightarrow> ctl \<times> state" where
  "scan_column E j pw =
     (let p = fst pw in
      if hincol p ! j \<le> 3 \<and> integerType p ! j = 0 then
        (if hincol p ! j > 1 then multi_column E j pw
         else if hincol p ! j \<noteq> 0 then singleton_column E j pw
         else (Continue, pw))
      else (Continue, pw))"

fun scan_loop :: "env \<Rightarrow> nat list \<Rightarrow> state \<Rightarrow> ctl \<times> state" where
  "scan_loop E [] pw = (Continue, pw)"
| "scan_loop E (j # js) pw =
     (case scan_column E j pw of
        (Continue, pw') \<Rightarrow> scan_loop E js pw'
      | (c, pw') \<Rightarrow> (c, pw'))"

subsection \<open>Elimination of the accepted singleton columns (lines 456-561)\<close>

text \<open>The undo record \<open>action\<close> (lines 489-503).\<close>

record action =
  act_row :: nat
  act_col :: nat
  act_clo :: real
  act_cup :: real
  act_rlo :: real
  act_rup :: real
  act_ninrow :: nat
  act_rowels :: "real list"
  act_rowcols :: "nat list"
  act_costs :: "real list option"

text \<open>Modelled from the spec: \<open>presolve_delete_from_row\<close> is defined in
  CoinPresolveMatrix.hpp, which is not at hand. The spec has the eliminator "physically
  delete every row-r coefficient from the owning columns' sparse storage"; the call of
  line 547 applies it to the column-major arrays, so it takes the entry of \<open>row\<close> out of
  the entries of column \<open>jcol\<close>: the last entry of the column moves into its place and
  the column is one entry shorter. A column without such an entry is left as it is.\<close>

definition presolve_delete_from_row :: "nat \<Rightarrow> nat \<Rightarrow> prob \<Rightarrow> prob" where
  "presolve_delete_from_row jcol row p =
     (let kcs = mcstrt p ! jcol; kce = kcs + hincol p ! jcol in
      case find (\<lambda>k. hrow p ! k = row) [kcs..<kce] of
        None \<Rightarrow> p
      | Some k \<Rightarrow>
          p\<lparr> hrow := (hrow p)[k := hrow p ! (kce - 1)],
             colels := (colels p)[k := colels p ! (kce - 1)],
             hincol := (hincol p)[jcol := hincol p ! jcol - 1] \<rparr>)"

text \<open>Modelled from the spec: \<open>addCol\<close> is a member of \<open>CoinPresolveMatrix\<close>, declared
  in the same absent header; it hands a column to the worklist of the following pass (the
  spec's "caller-supplied worklist"). The model keeps that worklist as a list without
  repetitions.\<close>

definition addCol :: "nat \<Rightarrow> prob \<Rightarrow> prob" where
  "addCol jcol p =
     (if jcol \<in> set (nextColsToDo p) then p else p\<lparr>nextColsToDo := nextColsToDo p @ [jcol]\<rparr>)"

text \<open>Modelled from the spec: \<open>PRESOLVE_REMOVE_LINK\<close> is a macro of the same absent
  header; the spec has rows and columns in "still active" lists with O(1) unlink. The
  model keeps each list as the list of its members.\<close>

definition PRESOLVE_REMOVE_LINK :: "nat list \<Rightarrow> nat \<Rightarrow> nat list" where
  "PRESOLVE_REMOVE_LINK link i = removeAll i link"

text \<open>Modelled from the spec: \<open>change_bias\<close> is a member of \<open>CoinPresolveMatrix\<close>; the
  spec has the eliminator "add the corresponding constant term to the problem's
  objective bias".\<close>

definition change_bias :: "real \<Rightarrow> prob \<Rightarrow> prob" where
  "change_bias amount p = p\<lparr>dobias := dobias p + amount\<rparr>"

text \<open>Lines 474-482: \<open>n\<close>, the number of entries of the columns of the row.\<close>

definition isolated_n :: "prob \<Rightarrow> nat \<Rightarrow> nat" where
  "isolated_n p row =
     fold (\<lambda>k n. n + hincol p ! (hcol p ! k)) (row_entries p row) 0"

text \<open>Lines 512-529 for one entry \<open>k\<close> of the row, on the pair of the cost array and the
  costs saved so far (\<open>save_costs[k-krs] = cost[jcol]\<close> is read before the update).\<close>

definition spread_entry ::
    "prob \<Rightarrow> nat \<Rightarrow> real \<Rightarrow> real \<Rightarrow> nat \<Rightarrow> real list \<times> real list \<Rightarrow> real list \<times> real list" where
  "spread_entry p j costj coeffj k cs =
     (let jcol = hcol p ! k; c = fst cs; save_costs = snd cs @ [fst cs ! jcol] in
      if jcol \<noteq> j
      then (c[jcol := c ! jcol + costj * (- (rowels p ! k) / coeffj)], save_costs)
      else (c, save_costs))"

definition spread_costs ::
    "prob \<Rightarrow> nat \<Rightarrow> real \<Rightarrow> real \<Rightarrow> nat list \<Rightarrow> real list \<times> real list" where
  "spread_costs p j costj coeffj ks = fold (spread_entry p j costj coeffj) ks (cost p, [])"

text \<open>Line 484.\<close>

definition nonzero_cost :: "prob \<Rightarrow> nat \<Rightarrow> nat \<Rightarrow> bool" where
  "nonzero_cost p j row =
     (cost p ! j \<noteq> 0 \<and> \<bar>rup p ! row - rlo p ! row\<bar> \<le> feasibilityTolerance p)"

text \<open>Lines 505-541: the costs of the row's columns, the bias and the saved costs.\<close>

definition eliminate_cost :: "nat \<Rightarrow> nat \<Rightarrow> prob \<Rightarrow> prob \<times> real list option" where
  "eliminate_cost j row p =
     (if nonzero_cost p j row then
        (let coeffj = colels p ! (mcstrt p ! j);
             rhs = rlo p ! row; costj = cost p ! j;
             cs = spread_costs p j costj coeffj (row_entries p row);
             p1 = change_bias (costj * rhs / coeffj) (p\<lparr>cost := fst cs\<rparr>)
         in (p1\<lparr>cost := (cost p1)[j := 0]\<rparr>, Some (snd cs)))
      else (p, None))"

text \<open>Lines 543-548: the row is taken out of each of its columns.\<close>

definition remove_row_entry :: "nat \<Rightarrow> nat \<Rightarrow> prob \<Rightarrow> prob" where
  "remove_row_entry row k p =
     (let jcol = hcol p ! k in presolve_delete_from_row jcol row (addCol jcol p))"

text \<open>Lines 484-559: the elimination of column \<open>j\<close> with its row, once the row is known
  not to be isolated. The state is the problem, \<open>implied_free\<close> and the actions so far.\<close>

definition eliminate ::
    "nat \<Rightarrow> prob \<times> int list \<times> action list \<Rightarrow> prob \<times> int list \<times> action list" where
  "eliminate j s =
     (let p = fst s; imf = fst (snd s); actions = snd (snd s);
          kcs = mcstrt p ! j; row = hrow p ! kcs;
          pc = eliminate_cost j row p;
          a = \<lparr> act_row = row, act_col = j,
                act_clo = clo p ! j, act_cup = cup p ! j,
                act_rlo = rlo p ! row, act_rup = rup p ! row,
                act_ninrow = hinrow p ! row,
                act_rowels = map (\<lambda>k. rowels p ! k) (row_entries p row),
                act_rowcols = map (\<lambda>k. hcol p ! k) (row_entries p row),
                act_costs = snd pc \<rparr>;
          p2 = fold (remove_row_entry row) (row_entries p row) (fst pc);
          p3 = p2\<lparr> rlink := PRESOLVE_REMOVE_LINK (rlink p2) row,
                   hinrow := (hinrow p2)[row := 0],
                   rlo := (rlo p2)[row := 0],
                   rup := (rup p2)[row := 0] \<rparr>;
          p4 = p3\<lparr> clink := PRESOLVE_REMOVE_LINK (clink p3) j,
                   hincol := (hincol p3)[j := 0] \<rparr>
      in (p4, imf[j := -1], actions @ [a]))"

text \<open>The loop of lines 462-561. The first component is \<open>isolated_row\<close>: \<open>None\<close> for
  \<open>-1\<close>, and \<open>Some row\<close> when the loop was left through the \<open>break\<close> of line 480.\<close>

fun eliminate_loop ::
    "nat list \<Rightarrow> prob \<times> int list \<times> action list \<Rightarrow> nat option \<times> prob \<times> int list \<times> action list" where
  "eliminate_loop [] s = (None, s)"
| "eliminate_loop (j # js) s =
     (let p = fst s; imf = fst (snd s) in
      if hincol p ! j = 1 \<and> imf ! j \<ge> 0 then
        (let row = hrow p ! (mcstrt p ! j) in
         if isolated_n p row = hinrow p ! row then (Some row, s)
         else eliminate_loop js (eliminate j s))
      else eliminate_loop js s)"

subsection \<open>The pass (lines 46-587)\<close>

text \<open>The log of actions is a list, the newest entry first; an entry of this pass is
  \<open>Inl\<close> of its actions, an entry of another pass is \<open>Inr\<close> of whatever that pass
  records. The isolated-constraint handler returns the problem and the new log, or no
  log when it fails (line 577-578); the substitution pass returns the problem, the log
  and the fill level, which the pass hands on by reference.\<close>

type_synonym 'a log = "(action list + 'a) list"

datatype error = AssertionFailed

text \<open>Lines 456-586, from the state the scan has left.\<close>

definition finish ::
    "(prob \<Rightarrow> nat \<Rightarrow> 'a log \<Rightarrow> prob \<times> 'a log option)
      \<Rightarrow> (prob \<Rightarrow> int list \<Rightarrow> 'a log \<Rightarrow> int \<Rightarrow> prob \<times> 'a log \<times> int)
      \<Rightarrow> nat list \<Rightarrow> prob \<times> work \<Rightarrow> 'a log \<Rightarrow> int \<Rightarrow> prob \<times> 'a log \<times> int" where
  "finish isolated_presolve subst_presolve lk pw next fill_level =
     (let el = eliminate_loop lk (fst pw, implied_free (snd pw), []);
          isolated_row = fst el; p2 = fst (snd el);
          imf = fst (snd (snd el)); actions = snd (snd (snd el));
          next1 = (if actions \<noteq> [] then Inl actions # next else next);
          pn = (case isolated_row of
                  None \<Rightarrow> (p2, next1)
                | Some r \<Rightarrow>
                    (case isolated_presolve p2 r next1 of
                       (p', None) \<Rightarrow> (p', next1)
                     | (p', Some nextX) \<Rightarrow> (p', nextX)))
      in if fill_level \<noteq> 0
         then subst_presolve (fst pn) imf (snd pn) fill_level
         else (fst pn, snd pn, fill_level))"

definition presolve ::
    "env
      \<Rightarrow> (prob \<Rightarrow> nat \<Rightarrow> 'a log \<Rightarrow> prob \<times> 'a log option)
      \<Rightarrow> (prob \<Rightarrow> int list \<Rightarrow> 'a log \<Rightarrow> int \<Rightarrow> prob \<times> 'a log \<times> int)
      \<Rightarrow> prob \<Rightarrow> 'a log \<Rightarrow> int \<Rightarrow> error + prob \<times> 'a log \<times> int" where
  "presolve E isolated_presolve subst_presolve p next fill_level =
     (let lk = look p fill_level in
      case scan_loop E lk (p, init_work p) of
        (Abort, pw) \<Rightarrow> Inl AssertionFailed
      | (c, pw) \<Rightarrow> Inr (finish isolated_presolve subst_presolve lk pw next fill_level))"

section \<open>Notions used by the properties\<close>

text \<open>The scan writes two fields of the problem only, \<open>status_\<close> and the messages, and it
  never clears bit 0 of the status: \<open>scan_frame p p'\<close> says that \<open>p'\<close> is \<open>p\<close> up to such a
  change. Taking a row out of its columns writes four fields only: \<open>column_frame\<close>.\<close>

definition scan_frame :: "prob \<Rightarrow> prob \<Rightarrow> bool" where
  "scan_frame p p' =
     (\<exists>st ms. p' = p\<lparr>status := st, messages := ms\<rparr> \<and> (bit (status p) 0 \<longrightarrow> bit st 0))"

definition column_frame :: "prob \<Rightarrow> prob \<Rightarrow> bool" where
  "column_frame p p' =
     (\<exists>h c n x. p' = p\<lparr>hrow := h, colels := c, hincol := n, nextColsToDo := x\<rparr>)"


text \<open>An entry \<open>k\<close> of a column is eligible for the choice of lines 377-389: its row is an
  equality row within the tolerance and its coefficient is above the threshold.\<close>

definition eligible :: "prob \<Rightarrow> real \<Rightarrow> nat \<Rightarrow> bool" where
  "eligible p L k =
     (\<bar>rlo p ! (hrow p ! k) - rup p ! (hrow p ! k)\<bar> < feasibilityTolerance p \<and> \<bar>colels p ! k\<bar> > L)"

text \<open>The objective of the problem at an assignment \<open>x\<close> of the columns, with the bias,
  and the activity of a row at \<open>x\<close>.\<close>

definition objective :: "prob \<Rightarrow> (nat \<Rightarrow> real) \<Rightarrow> real" where
  "objective p x = (\<Sum>i<ncols p. cost p ! i * x i) + dobias p"

definition row_value :: "prob \<Rightarrow> nat \<Rightarrow> (nat \<Rightarrow> real) \<Rightarrow> real" where
  "row_value p row x = (\<Sum>k\<leftarrow>row_entries p row. rowels p ! k * x (hcol p ! k))"

subsection \<open>Example problems\<close>

text \<open>\<open>DBL_MAX\<close> of an IEEE double, which is what \<open>COIN_DBL_MAX\<close> and \<open>PRESOLVE_INF\<close>
  stand for in CoinUtils, and \<open>ZTOLDP = 1e-12\<close>; assertions are compiled in.
  \<open>implied_bounds\<close> is not at hand: in the examples that reach it, it answers that the
  other columns of the row allow the activity 0 only and imply no bound on the column.\<close>

definition DBL_MAX :: real where
  "DBL_MAX = 2 ^ 1024 - 2 ^ 971"

definition E0 :: env where
  "E0 = \<lparr> ZTOLDP = 1 / 10 ^ 12, COIN_DBL_MAX = DBL_MAX, PRESOLVE_INF = DBL_MAX,
          NDEBUG = False,
          implied_bounds = (\<lambda>els cl cu hc krs kre j rl ru. (0, 0, - DBL_MAX, DBL_MAX)) \<rparr>"

text \<open>Three columns and two rows, \<open>x0 + x1\<close> and \<open>x0 + x2\<close>, with the bounds of the columns,
  the bounds of the rows and the costs left open; the tolerance is \<open>1e-7\<close> and the
  worklist is all columns.\<close>

definition two_rows :: "real list \<Rightarrow> real list \<Rightarrow> real list \<Rightarrow> real list \<Rightarrow> real list \<Rightarrow> prob" where
  "two_rows cl cu rl ru c =
     \<lparr> colels = [1, 1, 1, 1], hrow = [0, 1, 0, 1], mcstrt = [0, 2, 3],
       hincol = [2, 1, 1], ncols = 3, clo = cl, cup = cu,
       rowels = [1, 1, 1, 1], hcol = [0, 1, 0, 2], mrstrt = [0, 2], hinrow = [2, 2],
       nrows = 2, rlo = rl, rup = ru, cost = c, rlink = [0, 1],
       clink = [0, 1, 2], integerType = [0, 0, 0], feasibilityTolerance = 1 / 10 ^ 7,
       status = 0, numberColsToDo = 3, colsToDo = [0, 1, 2], nextColsToDo = [],
       dobias = 0, messages = [] \<rparr>"

text \<open>\<open>P0\<close>: \<open>x0 + x1 = 5\<close> and \<open>x0 + x2 = 5\<close> with \<open>x0\<close> in \<open>[0, 10]\<close>, \<open>x1\<close> and \<open>x2\<close> in
  \<open>[0, 5]\<close>, and the objective \<open>3 x1\<close>. \<open>P3\<close>: the same with the second row \<open>x0 + x2 = 100\<close>,
  which the bounds cannot reach. \<open>P4\<close>: \<open>x0\<close> free and the first row without bounds.\<close>

definition P0 :: prob where
  "P0 = two_rows [0, 0, 0] [10, 5, 5] [5, 5] [5, 5] [0, 3, 0]"



text \<open>\<open>P1\<close>: two free columns, both in the rows \<open>x0 + x1 = 0\<close> and \<open>x0 + x1 \<le> 4\<close>.\<close>

definition P1 :: prob where
  "P1 = \<lparr> colels = [1, 1, 1, 1], hrow = [0, 1, 0, 1], mcstrt = [0, 2],
          hincol = [2, 2], ncols = 2, clo = [- DBL_MAX, - DBL_MAX], cup = [DBL_MAX, DBL_MAX],
          rowels = [1, 1, 1, 1], hcol = [0, 1, 0, 1], mrstrt = [0, 2], hinrow = [2, 2],
          nrows = 2, rlo = [0, - DBL_MAX], rup = [0, 4], cost = [0, 0], rlink = [0, 1],
          clink = [0, 1], integerType = [0, 0], feasibilityTolerance = 1 / 10 ^ 7,
          status = 0, numberColsToDo = 2, colsToDo = [0, 1], nextColsToDo = [],
          dobias = 0, messages = [] \<rparr>"

text \<open>\<open>P2\<close>: the row \<open>2e12 x0 + x1 \<ge> 0\<close> with \<open>x0\<close> in \<open>[-1.5e19, -1e19]\<close> and \<open>x1\<close>
  in \<open>[0, DBL_MAX]\<close>; both columns are singletons. The row can be satisfied, since
  \<open>x1\<close> has no upper bound.\<close>

definition P2 :: prob where
  "P2 = \<lparr> colels = [2 * 10 ^ 12, 1], hrow = [0, 0], mcstrt = [0, 1],
          hincol = [1, 1], ncols = 2, clo = [- (15 * 10 ^ 18), 0], cup = [- (10 ^ 19), DBL_MAX],
          rowels = [2 * 10 ^ 12, 1], hcol = [0, 1], mrstrt = [0], hinrow = [2],
          nrows = 1, rlo = [0], rup = [DBL_MAX], cost = [0, 0], rlink = [0],
          clink = [0, 1], integerType = [0, 0], feasibilityTolerance = 1 / 10 ^ 7,
          status = 0, numberColsToDo = 2, colsToDo = [0, 1], nextColsToDo = [],
          dobias = 0, messages = [] \<rparr>"

text \<open>\<open>W0\<close> and \<open>W1\<close>: the arrays of the pass after column 0 of \<open>P0\<close> and of \<open>P1\<close> has been
  scanned. \<open>W2\<close>: arrays for \<open>P2\<close> in which column 0 is marked with row 0. \<open>X0\<close>: an
  assignment that satisfies the first row of \<open>P0\<close>.\<close>

definition W0 :: work where
  "W0 = \<lparr> implied_free = [0, -1, -1], infiniteDown = [0, 0], infiniteUp = [-3, 0],
          maxDown = [0, 0], maxUp = [15, 15] \<rparr>"

definition W1 :: work where
  "W1 = \<lparr> implied_free = [0, -1], infiniteDown = [2, 2], infiniteUp = [-3, 2],
          maxDown = [0, 0], maxUp = [0, 0] \<rparr>"

definition W2 :: work where
  "W2 = \<lparr> implied_free = [0, -1], infiniteDown = [0], infiniteUp = [-3],
          maxDown = [0], maxUp = [0] \<rparr>"

definition X0 :: "nat \<Rightarrow> real" where
  "X0 i = [2, 3, 0] ! i"

text \<open>Collaborators for the examples: an isolated-constraint handler that fails and leaves
  the problem alone, and a substitution pass that does nothing.\<close>

definition no_isolated :: "prob \<Rightarrow> nat \<Rightarrow> unit log \<Rightarrow> prob \<times> unit log option" where
  "no_isolated q r n = (q, None)"

definition no_subst :: "prob \<Rightarrow> int list \<Rightarrow> unit log \<Rightarrow> int \<Rightarrow> prob \<times> unit log \<times> int" where
  "no_subst q f n l = (q, n, l)"

section \<open>Properties\<close>

subsection \<open>What the scan and the elimination leave alone\<close>

lemma scan_frame_refl: "scan_frame p p"
  unfolding scan_frame_def by (rule exI[of _ "status p"], rule exI[of _ "messages p"]) simp

lemma scan_frame_trans: "scan_frame p p' \<Longrightarrow> scan_frame p' p'' \<Longrightarrow> scan_frame p p''"
  unfolding scan_frame_def by clarsimp blast

lemma scan_frame_row_infeasible: "scan_frame p (row_infeasible p row)"
  unfolding scan_frame_def row_infeasible_def by (auto simp: bit_or_iff)

lemma scan_frame_fields:
  assumes "scan_frame p p'"
  shows "clo p' = clo p" "cup p' = cup p" "hrow p' = hrow p" "colels p' = colels p"
    "mcstrt p' = mcstrt p" "hincol p' = hincol p" "rlo p' = rlo p" "rup p' = rup p"
    "hinrow p' = hinrow p" "ncols p' = ncols p" "feasibilityTolerance p' = feasibilityTolerance p"
    "bit (status p) 0 \<Longrightarrow> bit (status p') 0"
  using assms unfolding scan_frame_def by auto

lemma fetch_row_frame:
  "fetch_row p w row = (b, p', w') \<Longrightarrow> scan_frame p p' \<and> implied_free w' = implied_free w"
  unfolding fetch_row_def compute_row_def Let_def
  by (cases "classify (feasibilityTolerance p) (rlo p ! row) (rup p ! row) (row_activity p row)")
     (auto simp: scan_frame_refl scan_frame_row_infeasible split: if_splits)

lemma scan_row_frame:
  assumes "scan_row E j k lh (p, w) = (ex, lh', p', w')"
  shows "scan_frame p p' \<and> implied_free w' = implied_free w \<and> (ex = GaveUp \<longrightarrow> lh' = unbounded E)"
proof -
  obtain b p1 w1 where f: "fetch_row p w (hrow p ! k) = (b, p1, w1)" by (metis prod_cases3)
  from assms fetch_row_frame[OF f] f show ?thesis
    by (cases b) (auto simp: scan_row_def Let_def scan_frame_refl split: if_splits option.splits)
qed

lemma scan_rows_frame:
  "scan_rows E j ks lh (p, w) = (ex, lh', p', w') \<Longrightarrow>
   scan_frame p p' \<and> implied_free w' = implied_free w \<and> (ex = GaveUp \<longrightarrow> lh' = unbounded E)"
proof (induction ks arbitrary: lh p w)
  case Nil
  then show ?case by (simp add: scan_frame_refl)
next
  case (Cons k ks)
  obtain e1 lh1 p1 w1 where s: "scan_row E j k lh (p, w) = (e1, lh1, p1, w1)" by (metis prod_cases4)
  show ?case
  proof (cases "e1 = Finished")
    case True
    with Cons.prems s have "scan_rows E j ks lh1 (p1, w1) = (ex, lh', p', w')" by simp
    from Cons.IH[OF this] scan_row_frame[OF s] show ?thesis by (auto intro: scan_frame_trans)
  next
    case False
    with Cons.prems s have "(ex, lh', p', w') = (e1, lh1, p1, w1)" by (cases e1) simp_all
    with scan_row_frame[OF s] show ?thesis by simp
  qed
qed

lemma pick_row_frame: "scan_frame p p' \<Longrightarrow> pick_row p' L ks = pick_row p L ks"
proof -
  assume f: "scan_frame p p'"
  then have "pick_entry p' L = pick_entry p L"
    by (intro ext) (simp add: pick_entry_def scan_frame_fields Let_def cong: if_cong)
  with f show ?thesis by (simp add: pick_row_def scan_frame_fields)
qed

lemma accept_column_frame:
  "scan_frame p p' \<Longrightarrow> accept_column p' w j L lh = accept_column p w j L lh"
  by (simp add: accept_column_def col_entries_def pick_row_frame scan_frame_fields Let_def
      cong: if_cong)

lemma multi_column_scanned:
  assumes "fst (prescan E p (col_entries p j))" "\<not> fst (snd (prescan E p (col_entries p j)))"
    and s: "column_rows E j (p, w) = (ex, lh, p', w')" and "ex \<noteq> AssertFailed"
  shows "multi_column E j (p, w) =
           (Continue, p', accept_column p w' j (snd (snd (prescan E p (col_entries p j)))) lh)"
proof -
  from s scan_rows_frame[of E j _ _ p w ex lh p' w'] have "scan_frame p p'"
    by (simp add: column_rows_def)
  with assms show ?thesis
    by (cases ex) (simp_all add: multi_column_def Let_def accept_column_frame)
qed

lemma multi_column_frame:
  assumes "multi_column E j (p, w) = (c, p', w')"
  shows "scan_frame p p'"
proof -
  obtain ex lh p1 w1 where s: "column_rows E j (p, w) = (ex, lh, p1, w1)" by (metis prod_cases4)
  with scan_rows_frame[of E j _ _ p w ex lh p1 w1] have "scan_frame p p1"
    by (simp add: column_rows_def)
  with assms s show ?thesis
    by (cases ex) (auto simp: multi_column_def Let_def scan_frame_refl split: if_splits)
qed

lemma singleton_column_frame: "singleton_column E j (p, w) = (c, p', w') \<Longrightarrow> scan_frame p p'"
  by (auto simp: singleton_column_def Let_def scan_frame_refl scan_frame_row_infeasible
      split: if_splits)

lemma scan_column_frame: "scan_column E j (p, w) = (c, p', w') \<Longrightarrow> scan_frame p p'"
  by (auto simp: scan_column_def Let_def scan_frame_refl split: if_splits
      dest: multi_column_frame singleton_column_frame)

lemma scan_loop_frame: "scan_loop E js (p, w) = (c, p', w') \<Longrightarrow> scan_frame p p'"
proof (induction js arbitrary: p w)
  case Nil
  then show ?case by (simp add: scan_frame_refl)
next
  case (Cons j js)
  obtain c1 p1 w1 where sc: "scan_column E j (p, w) = (c1, p1, w1)" by (metis prod_cases3)
  with Cons.prems Cons.IH[of p1 w1] scan_column_frame[OF sc] show ?case
    by (cases c1) (auto intro: scan_frame_trans)
qed

lemma column_frame_refl: "column_frame p p"
  unfolding column_frame_def
  by (rule exI[of _ "hrow p"], rule exI[of _ "colels p"], rule exI[of _ "hincol p"],
      rule exI[of _ "nextColsToDo p"]) simp

lemma column_frame_trans: "column_frame p p' \<Longrightarrow> column_frame p' p'' \<Longrightarrow> column_frame p p''"
  unfolding column_frame_def by clarsimp blast

lemma column_frame_fields:
  assumes "column_frame p p'"
  shows "clo p' = clo p" "cup p' = cup p" "status p' = status p" "cost p' = cost p"
    "dobias p' = dobias p" "ncols p' = ncols p" "rlink p' = rlink p" "clink p' = clink p"
    "hinrow p' = hinrow p" "rlo p' = rlo p" "rup p' = rup p"
  using assms unfolding column_frame_def by auto

lemma column_frame_upd:
  "column_frame p (p\<lparr>hrow := h, colels := c, hincol := n, nextColsToDo := x\<rparr>)"
  unfolding column_frame_def by blast

lemma remove_row_entry_frame: "column_frame p (remove_row_entry row k p)"
proof -
  have a: "column_frame q (addCol jcol q)" for q jcol
    using column_frame_upd[where p = q and h = "hrow q" and c = "colels q" and n = "hincol q"
        and x = "nextColsToDo (addCol jcol q)"]
    by (cases "jcol \<in> set (nextColsToDo q)") (simp_all add: addCol_def)
  have d: "column_frame q (presolve_delete_from_row jcol row q)" for q jcol
    using column_frame_upd[where p = q and h = "hrow (presolve_delete_from_row jcol row q)"
        and c = "colels (presolve_delete_from_row jcol row q)"
        and n = "hincol (presolve_delete_from_row jcol row q)" and x = "nextColsToDo q"]
    by (cases "find (\<lambda>k. hrow q ! k = row) [mcstrt q ! jcol..<mcstrt q ! jcol + hincol q ! jcol]")
       (simp_all add: presolve_delete_from_row_def Let_def)
  show ?thesis
    unfolding remove_row_entry_def Let_def by (rule column_frame_trans[OF a d])
qed

lemma fold_remove_row_entry_frame: "column_frame p (fold (remove_row_entry row) ks p)"
proof (induction ks arbitrary: p)
  case Nil
  show ?case by (simp add: column_frame_refl)
next
  case (Cons k ks)
  from column_frame_trans[OF remove_row_entry_frame Cons.IH] show ?case by simp
qed

lemma eliminate_kept:
  "clo (fst (eliminate j s)) = clo (fst s)" "cup (fst (eliminate j s)) = cup (fst s)"
  "status (fst (eliminate j s)) = status (fst s)"
  "cost (fst (eliminate j s)) = cost (fst (eliminate_cost j (hrow (fst s) ! (mcstrt (fst s) ! j)) (fst s)))"
  "dobias (fst (eliminate j s)) = dobias (fst (eliminate_cost j (hrow (fst s) ! (mcstrt (fst s) ! j)) (fst s)))"
  "ncols (fst (eliminate j s)) = ncols (fst s)"
  by (simp_all add: eliminate_def Let_def column_frame_fields[OF fold_remove_row_entry_frame])
     (simp_all add: eliminate_cost_def Let_def change_bias_def)

lemma eliminate_loop_kept:
  "clo (fst (snd (eliminate_loop lk s))) = clo (fst s) \<and>
   cup (fst (snd (eliminate_loop lk s))) = cup (fst s) \<and>
   status (fst (snd (eliminate_loop lk s))) = status (fst s)"
proof (induction lk arbitrary: s)
  case Nil
  show ?case by simp
next
  case (Cons j js)
  show ?case
    using Cons.IH[of s] Cons.IH[of "eliminate j s"] by (simp add: Let_def eliminate_kept)
qed

subsection \<open>Evaluation of the example problems\<close>

lemma E0_sel:
  "ZTOLDP E0 = 1 / 10 ^ 12" "COIN_DBL_MAX E0 = DBL_MAX" "PRESOLVE_INF E0 = DBL_MAX"
  "NDEBUG E0 = False"
  "implied_bounds E0 = (\<lambda>els cl cu hc krs kre j rl ru. (0, 0, - DBL_MAX, DBL_MAX))"
  unfolding E0_def by (simp_all only: env.select_convs)

lemma two_rows_sel:
  "colels (two_rows cl cu rl ru c) = [1, 1, 1, 1]" "hrow (two_rows cl cu rl ru c) = [0, 1, 0, 1]"
  "mcstrt (two_rows cl cu rl ru c) = [0, 2, 3]" "hincol (two_rows cl cu rl ru c) = [2, 1, 1]"
  "ncols (two_rows cl cu rl ru c) = 3" "clo (two_rows cl cu rl ru c) = cl"
  "cup (two_rows cl cu rl ru c) = cu" "rowels (two_rows cl cu rl ru c) = [1, 1, 1, 1]"
  "hcol (two_rows cl cu rl ru c) = [0, 1, 0, 2]" "mrstrt (two_rows cl cu rl ru c) = [0, 2]"
  "hinrow (two_rows cl cu rl ru c) = [2, 2]" "nrows (two_rows cl cu rl ru c) = 2"
  "rlo (two_rows cl cu rl ru c) = rl" "rup (two_rows cl cu rl ru c) = ru"
  "cost (two_rows cl cu rl ru c) = c" "integerType (two_rows cl cu rl ru c) = [0, 0, 0]"
  "feasibilityTolerance (two_rows cl cu rl ru c) = 1 / 10 ^ 7" "status (two_rows cl cu rl ru c) = 0"
  "numberColsToDo (two_rows cl cu rl ru c) = 3" "colsToDo (two_rows cl cu rl ru c) = [0, 1, 2]"
  "dobias (two_rows cl cu rl ru c) = 0" "messages (two_rows cl cu rl ru c) = []"
  unfolding two_rows_def by (simp_all only: prob.select_convs)

lemma P1_sel:
  "colels P1 = [1, 1, 1, 1]" "hrow P1 = [0, 1, 0, 1]" "mcstrt P1 = [0, 2]"
  "hincol P1 = [2, 2]" "ncols P1 = 2" "clo P1 = [- DBL_MAX, - DBL_MAX]"
  "cup P1 = [DBL_MAX, DBL_MAX]" "rowels P1 = [1, 1, 1, 1]" "hcol P1 = [0, 1, 0, 1]"
  "mrstrt P1 = [0, 2]" "hinrow P1 = [2, 2]" "nrows P1 = 2" "rlo P1 = [0, - DBL_MAX]"
  "rup P1 = [0, 4]" "cost P1 = [0, 0]" "integerType P1 = [0, 0]"
  "feasibilityTolerance P1 = 1 / 10 ^ 7" "status P1 = 0" "numberColsToDo P1 = 2"
  "colsToDo P1 = [0, 1]"
  unfolding P1_def by (simp_all only: prob.select_convs)

lemma P2_sel:
  "colels P2 = [2 * 10 ^ 12, 1]" "hrow P2 = [0, 0]" "mcstrt P2 = [0, 1]"
  "hincol P2 = [1, 1]" "ncols P2 = 2" "clo P2 = [- (15 * 10 ^ 18), 0]"
  "cup P2 = [- (10 ^ 19), DBL_MAX]" "rowels P2 = [2 * 10 ^ 12, 1]" "hcol P2 = [0, 1]"
  "mrstrt P2 = [0]" "hinrow P2 = [2]" "nrows P2 = 1" "rlo P2 = [0]" "rup P2 = [DBL_MAX]"
  "feasibilityTolerance P2 = 1 / 10 ^ 7" "status P2 = 0" "messages P2 = []"
  unfolding P2_def by (simp_all only: prob.select_convs)

lemma W_sel:
  "implied_free W0 = [0, -1, -1]" "infiniteDown W0 = [0, 0]" "infiniteUp W0 = [-3, 0]"
  "maxDown W0 = [0, 0]" "maxUp W0 = [15, 15]"
  "implied_free W1 = [0, -1]" "infiniteDown W1 = [2, 2]" "infiniteUp W1 = [-3, 2]"
  "maxDown W1 = [0, 0]" "maxUp W1 = [0, 0]"
  "implied_free W2 = [0, -1]" "infiniteUp W2 = [-3]"
  unfolding W0_def W1_def W2_def by (simp_all only: work.select_convs)

lemma list_eval:
  "[i..<j] = (if i < j then i # [Suc i..<j] else [])"
  "replicate 2 x = [x, x]" "replicate 3 x = [x, x, x]"
  by (simp_all add: upt_rec numeral_2_eq_2 numeral_3_eq_3)

lemmas model_defs = scan_column_def multi_column_def column_rows_def col_entries_def
  row_entries_def unbounded_def prescan_def prescan_entry_def scan_row_def fetch_row_def
  compute_row_def row_activity_def activity_entry_def classify_def maxUpx_def maxDownx_def
  row_bounds_def pos_lower_def pos_upper_def neg_lower_def neg_upper_def relax_def
  assert_ok_def accept_column_def pick_row_def pick_entry_def large_def init_work_def
  row_infeasible_def singleton_column_def singleton_guard_def singleton_bounds_def

lemmas eval_simps = model_defs E0_sel two_rows_sel list_eval DBL_MAX_def Let_def

lemma scan_P0:
  "fst (column_rows E0 0 (P0, init_work P0)) = Finished"
  "fst (snd (column_rows E0 0 (P0, init_work P0))) = (0, 5)"
  "scan_column E0 0 (P0, init_work P0) = (Continue, P0, W0)"
  "fst (column_rows E0 0 (P0, W0)) = GaveUp"
  by (simp_all add: eval_simps P0_def W0_def)



lemma scan_P1:
  "scan_column E0 0 (P1, init_work P1) = (Continue, P1, W1)"
  "scan_column E0 1 (P1, W1) = (Continue, P1, W1\<lparr>implied_free := [0, 0]\<rparr>)"
  by (simp_all add: eval_simps P1_sel W1_def)

lemma singleton_P0:
  "singleton_guard E0 P0 (init_work P0) 1" "\<not> singleton_guard E0 P0 W0 1"
  "singleton_guard E0 P0 W0 2"
  "singleton_column E0 1 (P0, init_work P0) = (Break, row_infeasible P0 0, init_work P0)"
  "scan_column E0 1 (P0, W0) = (Continue, P0, W0)"
  "scan_column E0 2 (P0, W0) = (Break, row_infeasible P0 1, W0)"
  by (simp_all add: eval_simps P0_def W_sel)

subsection \<open>C2: the classification of a row\<close>






subsection \<open>C1: rows that are given up\<close>





subsection \<open>C3: the acceptance test\<close>

lemma accept_column_implied_free:
  "implied_free (accept_column p w j L lh) =
     (if clo p ! j \<le> fst lh \<and> snd lh \<le> cup p ! j \<and> 0 \<le> pick_row p (L * (1 / 10)) (col_entries p j)
      then (implied_free w)[j := pick_row p (L * (1 / 10)) (col_entries p j)] else implied_free w)"
  by (simp add: accept_column_def Let_def)

lemma scan_column_implied_free:
  assumes deg: "1 < hincol p ! j" "hincol p ! j \<le> 3" "integerType p ! j = 0"
    and pre: "prescan E p (col_entries p j) = (True, False, L)"
    and ex: "fst (column_rows E j (p, w)) \<noteq> AssertFailed"
    and lh: "lh = fst (snd (column_rows E j (p, w)))"
  shows "implied_free (snd (snd (scan_column E j (p, w)))) =
     (if clo p ! j \<le> fst lh \<and> snd lh \<le> cup p ! j \<and> 0 \<le> pick_row p (L * (1 / 10)) (col_entries p j)
      then (implied_free w)[j := pick_row p (L * (1 / 10)) (col_entries p j)] else implied_free w)"
proof -
  obtain e p' w' where s: "column_rows E j (p, w) = (e, lh, p', w')"
    using lh by (metis fst_conv prod_cases4 snd_conv)
  with ex have e: "e \<noteq> AssertFailed" by simp
  from s scan_rows_frame[of E j _ _ p w e lh p' w'] have "implied_free w' = implied_free w"
    by (simp add: column_rows_def)
  with multi_column_scanned[OF _ _ s e] pre deg show ?thesis
    by (simp add: scan_column_def accept_column_implied_free)
qed

text \<open>
  Claim C3 says that a column with two or three entries is accepted iff its declared
  lower bound is at least \<open>low\<close> and its declared upper bound is at most \<open>high\<close>. The
  test of line 372 is the other way round, \<open>clo[j] \<le> low\<close> and \<open>high \<le> cup[j]\<close>. In
  \<open>P0\<close> column 0 has the bounds \<open>[0, 10]\<close>; each of its rows \<open>x0 + x1 = 5\<close>, \<open>x0 + x2 = 5\<close>
  has \<open>maximumUp = 15\<close>, \<open>maximumDown = 0\<close> and no unbounded contribution, so line 240
  gives \<open>newBound = 10 + (5 - 15) / 1 = 0\<close> and line 271 gives
  \<open>newBound = 0 + (5 - 0) / 1 = 5\<close>: the walk ends with \<open>(low, high) = (0, 5)\<close>. The
  declared upper bound 10 is not at most 5, and the column is marked with row 0.
\<close>

theorem acceptance_counterexample:
  "fst (snd (column_rows E0 0 (P0, init_work P0))) = (0, 5) \<and>
   implied_free (init_work P0) ! 0 = -1 \<and>
   implied_free (snd (snd (scan_column E0 0 (P0, init_work P0)))) ! 0 = 0 \<and>
   \<not> (clo P0 ! 0 \<ge> 0 \<and> cup P0 ! 0 \<le> 5)"
  unfolding scan_P0
  by (simp add: init_work_def P0_def two_rows_sel W_sel list_eval)

text \<open>
  Claim C3, amended. A column \<open>j\<close> with two or three entries that is not of integer type,
  has an equality row with a significant coefficient and no singleton row (lines
  123-142), and whose walk ends with \<open>(low, high)\<close> without a failed assertion, is marked
  implied free iff \<open>clo[j] \<le> low\<close> and \<open>high \<le> cup[j]\<close> (the implied range lies within the
  declared bounds) and the choice of lines 377-389 finds a row.
\<close>

theorem implied_free_acceptance:
  assumes deg: "1 < hincol p ! j" "hincol p ! j \<le> 3" "integerType p ! j = 0"
    and pre: "prescan E p (col_entries p j) = (True, False, L)"
    and ex: "fst (column_rows E j (p, w)) \<noteq> AssertFailed"
    and lh: "(lo, hi) = fst (snd (column_rows E j (p, w)))"
    and j: "j < length (implied_free w)" "implied_free w ! j = -1"
  shows "0 \<le> implied_free (snd (snd (scan_column E j (p, w)))) ! j \<longleftrightarrow>
         clo p ! j \<le> lo \<and> hi \<le> cup p ! j \<and> 0 \<le> pick_row p (L * (1 / 10)) (col_entries p j)"
  using scan_column_implied_free[OF deg pre ex lh] j by simp

lemma prescan_P0: "prescan E0 P0 (col_entries P0 0) = (True, False, 1)"
  by (simp add: eval_simps P0_def)

theorem implied_free_acceptance_witness:
  "1 < hincol P0 ! 0 \<and> hincol P0 ! 0 \<le> 3 \<and> integerType P0 ! 0 = 0 \<and>
   prescan E0 P0 (col_entries P0 0) = (True, False, 1) \<and>
   fst (column_rows E0 0 (P0, init_work P0)) \<noteq> AssertFailed \<and>
   (0, 5) = fst (snd (column_rows E0 0 (P0, init_work P0))) \<and>
   0 < length (implied_free (init_work P0)) \<and> implied_free (init_work P0) ! 0 = -1 \<and>
   clo P0 ! 0 \<le> 0 \<and> 5 \<le> cup P0 ! 0 \<and>
   0 \<le> implied_free (snd (snd (scan_column E0 0 (P0, init_work P0)))) ! 0"
proof -
  have h: "1 < hincol P0 ! 0" "hincol P0 ! 0 \<le> 3" "integerType P0 ! 0 = 0"
    "fst (column_rows E0 0 (P0, init_work P0)) \<noteq> AssertFailed"
    "(0, 5) = fst (snd (column_rows E0 0 (P0, init_work P0)))"
    "0 < length (implied_free (init_work P0))" "implied_free (init_work P0) ! 0 = -1"
    unfolding scan_P0 by (simp_all add: init_work_def P0_def two_rows_sel list_eval)
  have c: "clo P0 ! 0 \<le> 0" "5 \<le> cup P0 ! 0"
    "0 \<le> implied_free (snd (snd (scan_column E0 0 (P0, init_work P0)))) ! 0"
    unfolding scan_P0 by (simp_all add: P0_def two_rows_sel W_sel)
  from implied_free_acceptance[OF h(1-3) prescan_P0 h(4-7)] h c prescan_P0 show ?thesis
    by blast
qed

subsection \<open>C5: the choice of the defining row\<close>

lemma fold_pick_entry:
  "fold (pick_entry p L) ks (kr0, n0) = (kr, n) \<Longrightarrow>
     (\<forall>k\<in>set ks. eligible p L k \<longrightarrow> n \<le> hinrow p ! (hrow p ! k)) \<and> n \<le> n0 \<and>
     ((kr, n) = (kr0, n0) \<or>
      (\<exists>k\<in>set ks. eligible p L k \<and> kr = int (hrow p ! k) \<and> n = hinrow p ! (hrow p ! k)))"
proof (induction ks arbitrary: kr0 n0)
  case Nil
  then show ?case by simp
next
  case (Cons k ks)
  obtain kr1 n1 where st: "pick_entry p L k (kr0, n0) = (kr1, n1)" by (metis prod.exhaust)
  then have "n1 \<le> n0" "eligible p L k \<longrightarrow> n1 \<le> hinrow p ! (hrow p ! k)"
    "(kr1, n1) = (kr0, n0) \<or> (eligible p L k \<and> kr1 = int (hrow p ! k) \<and> n1 = hinrow p ! (hrow p ! k))"
    by (auto simp: pick_entry_def eligible_def Let_def split: if_splits)
  with Cons.IH[of kr1 n1] Cons.prems st show ?case by auto
qed

lemma pick_row_chosen:
  assumes "0 \<le> pick_row p L ks"
  shows "\<exists>k\<in>set ks. eligible p L k \<and> pick_row p L ks = int (hrow p ! k) \<and>
           (\<forall>k'\<in>set ks. eligible p L k' \<longrightarrow> hinrow p ! (hrow p ! k) \<le> hinrow p ! (hrow p ! k'))"
proof -
  obtain kr n where f: "fold (pick_entry p L) ks (-1, ncols p + 1) = (kr, n)" by (metis prod.exhaust)
  with fold_pick_entry[OF f] assms show ?thesis by (auto simp: pick_row_def)
qed

lemma fold_prescan_entry:
  "fold (prescan_entry E p) ks (b0, s0, m0) = (b, False, m) \<Longrightarrow>
     m0 \<le> m \<and> (\<forall>k\<in>set ks. \<bar>colels p ! k\<bar> \<le> m) \<and> (m = m0 \<or> (\<exists>k\<in>set ks. m = \<bar>colels p ! k\<bar>))"
proof (induction ks arbitrary: b0 s0 m0)
  case Nil
  then show ?case by simp
next
  case (Cons k ks)
  obtain b1 s1 m1 where st: "prescan_entry E p k (b0, s0, m0) = (b1, s1, m1)" by (metis prod_cases3)
  have stuck: "fst (snd (fold (prescan_entry E p) xs (bb, True, mm)))" for xs bb mm
    by (induction xs arbitrary: bb mm) (simp_all add: prescan_entry_def Let_def)
  from Cons.prems st stuck[of ks b1 m1] have "\<not> s1" by auto
  with st have "m1 = max m0 \<bar>colels p ! k\<bar>"
    by (auto simp: prescan_entry_def Let_def split: if_splits)
  with Cons.IH[of b1 s1 m1] Cons.prems st show ?case by (auto simp: max_def split: if_splits)
qed

lemma prescan_largest:
  assumes "prescan E p ks = (b, False, m)" "ks \<noteq> []"
  shows "m = Max ((\<lambda>k. \<bar>colels p ! k\<bar>) ` set ks)"
proof -
  from fold_prescan_entry[OF assms(1)[unfolded prescan_def]]
  have le: "\<forall>k\<in>set ks. \<bar>colels p ! k\<bar> \<le> m" and ex: "m = 0 \<or> (\<exists>k\<in>set ks. m = \<bar>colels p ! k\<bar>)"
    by simp_all
  from assms(2) obtain k where k: "k \<in> set ks" by (cases ks) auto
  with le ex have "\<exists>k\<in>set ks. m = \<bar>colels p ! k\<bar>" by (cases "m = 0") fastforce+
  with le have "m \<in> (\<lambda>k. \<bar>colels p ! k\<bar>) ` set ks" "\<forall>x\<in>(\<lambda>k. \<bar>colels p ! k\<bar>) ` set ks. x \<le> m"
    by auto
  then show ?thesis by (intro Max_eqI[symmetric]) auto
qed

text \<open>
  Claim C5: when the scan marks a column \<open>j\<close> with two or three entries, the row it
  writes to \<open>implied_free[j]\<close> is the row of an entry of the column, an equality row within
  the tolerance, with a coefficient above a tenth of the largest coefficient magnitude of
  the column, and no row of the column with these properties has fewer entries.
\<close>

theorem defining_row_minimal:
  assumes deg: "1 < hincol p ! j" "hincol p ! j \<le> 3" "integerType p ! j = 0"
    and L: "L = Max ((\<lambda>k. \<bar>colels p ! k\<bar>) ` set (col_entries p j))"
    and j: "j < length (implied_free w)"
    and marked: "implied_free (snd (snd (scan_column E j (p, w)))) ! j \<noteq> implied_free w ! j"
  shows "\<exists>k\<in>set (col_entries p j).
           implied_free (snd (snd (scan_column E j (p, w)))) ! j = int (hrow p ! k) \<and>
           \<bar>rlo p ! (hrow p ! k) - rup p ! (hrow p ! k)\<bar> < feasibilityTolerance p \<and>
           \<bar>colels p ! k\<bar> > L * (1 / 10) \<and>
           (\<forall>k'\<in>set (col_entries p j).
              \<bar>rlo p ! (hrow p ! k') - rup p ! (hrow p ! k')\<bar> < feasibilityTolerance p \<and>
              \<bar>colels p ! k'\<bar> > L * (1 / 10)
              \<longrightarrow> hinrow p ! (hrow p ! k) \<le> hinrow p ! (hrow p ! k'))"
proof -
  let ?ks = "col_entries p j"
  from deg have sc: "scan_column E j (p, w) = multi_column E j (p, w)"
    by (simp add: scan_column_def)
  obtain b s m where pre: "prescan E p ?ks = (b, s, m)" by (metis prod_cases3)
  obtain ex lh p' w' where r: "column_rows E j (p, w) = (ex, lh, p', w')" by (metis prod_cases4)
  from r scan_rows_frame[of E j _ _ p w ex lh p' w'] have "implied_free w' = implied_free w"
    by (simp add: column_rows_def)
  with sc marked pre r have bs: "b \<and> \<not> s" and ex: "ex \<noteq> AssertFailed"
    by (auto simp: multi_column_def Let_def split: if_splits)
  from deg have "?ks \<noteq> []" by (simp add: col_entries_def)
  with prescan_largest[of E p ?ks b m] pre bs L have "prescan E p ?ks = (True, False, L)" by simp
  moreover from r ex have "fst (column_rows E j (p, w)) \<noteq> AssertFailed"
    "lh = fst (snd (column_rows E j (p, w)))" by simp_all
  ultimately have "implied_free (snd (snd (scan_column E j (p, w)))) =
     (if clo p ! j \<le> fst lh \<and> snd lh \<le> cup p ! j \<and> 0 \<le> pick_row p (L * (1 / 10)) ?ks
      then (implied_free w)[j := pick_row p (L * (1 / 10)) ?ks] else implied_free w)"
    using deg by (rule scan_column_implied_free[rotated 3])
  with marked j
  have "0 \<le> pick_row p (L * (1 / 10)) ?ks"
    and "implied_free (snd (snd (scan_column E j (p, w)))) ! j = pick_row p (L * (1 / 10)) ?ks"
    by (auto split: if_splits)
  with pick_row_chosen[of p "L * (1 / 10)" ?ks] show ?thesis
    unfolding eligible_def by auto
qed

theorem defining_row_minimal_witness:
  "1 < hincol P0 ! 0 \<and> hincol P0 ! 0 \<le> 3 \<and> integerType P0 ! 0 = 0 \<and>
   0 < length (implied_free (init_work P0)) \<and>
   implied_free (snd (snd (scan_column E0 0 (P0, init_work P0)))) ! 0
     \<noteq> implied_free (init_work P0) ! 0 \<and>
   (\<exists>k\<in>set (col_entries P0 0).
      implied_free (snd (snd (scan_column E0 0 (P0, init_work P0)))) ! 0 = int (hrow P0 ! k))"
proof -
  have h: "1 < hincol P0 ! 0" "hincol P0 ! 0 \<le> 3" "integerType P0 ! 0 = 0"
    "0 < length (implied_free (init_work P0))"
    "implied_free (snd (snd (scan_column E0 0 (P0, init_work P0)))) ! 0
       \<noteq> implied_free (init_work P0) ! 0"
    unfolding scan_P0 by (simp_all add: init_work_def P0_def two_rows_sel W_sel list_eval)
  from defining_row_minimal[OF h(1-3) refl h(4,5)] h show ?thesis by blast
qed

subsection \<open>C6: a row chosen by one column and the columns after it\<close>

text \<open>
  Claim C6 says that a row chosen as the defining row of one column is chosen by no later
  column of the pass. In \<open>P1\<close> both columns are free and have coefficient 1 in both rows.
  Column 0: each row is computed with \<open>infiniteUpper = infiniteLower = 2\<close>, so the bounds
  of lines 251 and 282 are \<open>-COIN_DBL_MAX\<close> and \<open>COIN_DBL_MAX\<close>; the test of line 372
  passes, row 0 (the equality row) is chosen and flagged \<open>-3\<close> at line 393. Column 1: its
  first row is row 0, flagged \<open>-3\<close>, so line 364 gives up with the same unbounded range;
  the test of line 372 passes again, and the choice of lines 377-389, which does not look
  at the flag, takes row 0 once more.
\<close>

theorem consumed_row_chosen_again:
  "implied_free (snd (snd (scan_column E0 0 (P1, init_work P1)))) ! 0 = 0 \<and>
   infiniteUp (snd (snd (scan_column E0 0 (P1, init_work P1)))) ! 0 = -3 \<and>
   implied_free (snd (snd (scan_loop E0 (look P1 0) (P1, init_work P1)))) = [0, 0]"
proof -
  have "look P1 0 = [0, 1]" by (simp add: look_def P1_sel)
  moreover have "scan_loop E0 [0, 1] (P1, init_work P1) = (Continue, P1, W1\<lparr>implied_free := [0, 0]\<rparr>)"
    by (simp only: scan_loop.simps scan_P1 prod.case ctl.case)
  ultimately show ?thesis unfolding scan_P1 by (simp add: W_sel)
qed

subsection \<open>C7: infeasible rows\<close>







lemma pass_P0:
  "look P0 0 = [0, 1, 2]"
  "scan_loop E0 [0, 1, 2] (P0, init_work P0) = (Break, row_infeasible P0 1, W0)"
  "eliminate_loop [0, 1, 2] (row_infeasible P0 1, implied_free W0, []) =
     (None, row_infeasible P0 1, implied_free W0, [])"
  "eliminate_loop [0, 1, 2] (P0, implied_free W0, []) = (None, P0, implied_free W0, [])"
proof -
  show "look P0 0 = [0, 1, 2]" by (simp add: look_def P0_def two_rows_sel)
  show "scan_loop E0 [0, 1, 2] (P0, init_work P0) = (Break, row_infeasible P0 1, W0)"
    by (simp only: scan_loop.simps scan_P0 singleton_P0 prod.case ctl.case)
  show "eliminate_loop [0, 1, 2] (row_infeasible P0 1, implied_free W0, []) =
     (None, row_infeasible P0 1, implied_free W0, [])"
    "eliminate_loop [0, 1, 2] (P0, implied_free W0, []) = (None, P0, implied_free W0, [])"
    by (simp_all add: row_infeasible_def P0_def two_rows_sel W_sel)
qed

lemma finish_P0:
  "finish no_isolated no_subst [0, 1, 2] (row_infeasible P0 1, W0) [] 0 =
     (row_infeasible P0 1, [], 0)"
  "finish no_isolated no_subst [0, 1, 2] (P0, W0) [] 0 = (P0, [], 0)"
  unfolding finish_def Let_def fst_conv snd_conv pass_P0 by simp_all

lemma presolve_P0:
  "presolve E0 no_isolated no_subst P0 [] 0 = Inr (row_infeasible P0 1, [], 0)"
  unfolding presolve_def Let_def pass_P0
  by (simp only: prod.case ctl.case finish_P0)


subsection \<open>C8: the guard of a singleton column\<close>

text \<open>
  Claim C8: a singleton column gets as far as \<open>implied_bounds\<close> only if its cost is zero or
  its row is an equality row within the tolerance, the row has more than one entry, the
  coefficient magnitude exceeds \<open>ZTOLDP\<close> and the row is not flagged \<open>-3\<close>; a singleton
  column that fails the guard of lines 404-405 leaves everything as it is. (The guard
  tests \<open>rlo[row] == rup[row]\<close>, which for a positive tolerance implies equality within
  the tolerance.)
\<close>

theorem singleton_considered_only_if:
  assumes "0 < feasibilityTolerance p" and "row = hrow p ! (mcstrt p ! j)"
  shows "(singleton_guard E p w j \<longrightarrow>
            (cost p ! j = 0 \<or> \<bar>rlo p ! row - rup p ! row\<bar> < feasibilityTolerance p) \<and>
            1 < hinrow p ! row \<and> ZTOLDP E < \<bar>colels p ! (mcstrt p ! j)\<bar> \<and>
            infiniteUp w ! row \<noteq> -3) \<and>
         (\<not> singleton_guard E p w j \<longrightarrow> singleton_column E j (p, w) = (Continue, p, w))"
  using assms by (auto simp: singleton_guard_def singleton_column_def Let_def)

theorem singleton_considered_only_if_witness:
  "0 < feasibilityTolerance P0 \<and> singleton_guard E0 P0 (init_work P0) 1 \<and>
   \<bar>rlo P0 ! 0 - rup P0 ! 0\<bar> < feasibilityTolerance P0 \<and> 1 < hinrow P0 ! 0 \<and>
   ZTOLDP E0 < \<bar>colels P0 ! (mcstrt P0 ! 1)\<bar> \<and> infiniteUp (init_work P0) ! 0 \<noteq> -3 \<and>
   \<not> singleton_guard E0 P0 W0 1 \<and> singleton_column E0 1 (P0, W0) = (Continue, P0, W0)"
proof -
  have t: "0 < feasibilityTolerance P0" "0 = hrow P0 ! (mcstrt P0 ! 1)" "cost P0 ! 1 \<noteq> 0"
    by (simp_all add: P0_def two_rows_sel)
  from singleton_considered_only_if[OF t(1,2), of E0 "init_work P0"]
    singleton_considered_only_if[OF t(1,2), of E0 W0] singleton_P0(1,2) t
  show ?thesis by (simp add: P0_def two_rows_sel)
qed

subsection \<open>C9: the declared bounds of the columns\<close>

lemma own_loops_keep_bounds:
  "clo (fst (snd (eliminate_loop lk (fst (snd (scan_loop E js (p, w))), imf, acts)))) = clo p \<and>
   cup (fst (snd (eliminate_loop lk (fst (snd (scan_loop E js (p, w))), imf, acts)))) = cup p"
proof -
  obtain c p1 w1 where s: "scan_loop E js (p, w) = (c, p1, w1)" by (metis prod_cases3)
  from scan_loop_frame[OF s] have "clo p1 = clo p" "cup p1 = cup p"
    by (simp_all add: scan_frame_fields)
  with eliminate_loop_kept[of lk "(p1, imf, acts)"] s show ?thesis by simp
qed

lemma finish_keeps_bounds:
  assumes iso: "\<forall>q r n. clo (fst (isolated_presolve q r n)) = clo q \<and>
                        cup (fst (isolated_presolve q r n)) = cup q"
    and sub: "\<forall>q f n l. clo (fst (subst_presolve q f n l)) = clo q \<and>
                         cup (fst (subst_presolve q f n l)) = cup q"
  shows "clo (fst (finish isolated_presolve subst_presolve lk (p, w) nxt fill_level)) = clo p \<and>
         cup (fst (finish isolated_presolve subst_presolve lk (p, w) nxt fill_level)) = cup p"
proof -
  let ?el = "eliminate_loop lk (p, implied_free w, [])"
  from eliminate_loop_kept[of lk "(p, implied_free w, [])"]
  have k: "clo (fst (snd ?el)) = clo p" "cup (fst (snd ?el)) = cup p" by simp_all
  let ?next1 = "if snd (snd (snd ?el)) \<noteq> [] then Inl (snd (snd (snd ?el))) # nxt else nxt"
  let ?pn = "case fst ?el of None \<Rightarrow> (fst (snd ?el), ?next1)
             | Some r \<Rightarrow> (case isolated_presolve (fst (snd ?el)) r ?next1 of
                           (p', None) \<Rightarrow> (p', ?next1) | (p', Some nextX) \<Rightarrow> (p', nextX))"
  have pn: "clo (fst ?pn) = clo p \<and> cup (fst ?pn) = cup p"
  proof (cases "fst ?el")
    case None
    with k show ?thesis by simp
  next
    case (Some r)
    obtain p' o' where i: "isolated_presolve (fst (snd ?el)) r ?next1 = (p', o')"
      by (metis prod.exhaust)
    from iso have "clo (fst (isolated_presolve (fst (snd ?el)) r ?next1)) = clo (fst (snd ?el)) \<and>
                   cup (fst (isolated_presolve (fst (snd ?el)) r ?next1)) = cup (fst (snd ?el))"
      by blast
    with i k have "clo p' = clo p \<and> cup p' = cup p" by simp
    with Some i show ?thesis by (cases o') simp_all
  qed
  have f: "finish isolated_presolve subst_presolve lk (p, w) nxt fill_level =
        (if fill_level \<noteq> 0 then subst_presolve (fst ?pn) (fst (snd (snd ?el))) (snd ?pn) fill_level
         else (fst ?pn, snd ?pn, fill_level))"
    by (simp add: finish_def Let_def)
  show ?thesis
  proof (cases "fill_level = 0")
    case True
    with f pn show ?thesis by simp
  next
    case False
    from sub have "clo (fst (subst_presolve (fst ?pn) (fst (snd (snd ?el))) (snd ?pn) fill_level)) = clo (fst ?pn) \<and>
        cup (fst (subst_presolve (fst ?pn) (fst (snd (snd ?el))) (snd ?pn) fill_level)) = cup (fst ?pn)"
      by blast
    with False f pn show ?thesis by simp
  qed
qed

text \<open>
  Claim C9: the pass does not write \<open>clo\<close> or \<open>cup\<close>. The scan and the elimination loop
  leave both arrays as they are, from any state; the pass as a whole returns them
  unchanged provided the two collaborating passes, which are not part of this file, do
  not change them either.
\<close>

theorem presolve_keeps_column_bounds:
  assumes iso: "\<forall>q r n. clo (fst (isolated_presolve q r n)) = clo q \<and>
                        cup (fst (isolated_presolve q r n)) = cup q"
    and sub: "\<forall>q f n l. clo (fst (subst_presolve q f n l)) = clo q \<and>
                         cup (fst (subst_presolve q f n l)) = cup q"
    and ret: "presolve E isolated_presolve subst_presolve p nxt fill_level = Inr (p', nxt', fl')"
  shows "clo p' = clo p \<and> cup p' = cup p \<and>
         clo (fst (snd (eliminate_loop lk (fst (snd (scan_loop E lk (p, w))), imf, acts)))) = clo p \<and>
         cup (fst (snd (eliminate_loop lk (fst (snd (scan_loop E lk (p, w))), imf, acts)))) = cup p"
proof -
  let ?lk = "look p fill_level"
  obtain c p1 w1 where s: "scan_loop E ?lk (p, init_work p) = (c, p1, w1)"
    by (metis prod_cases3)
  from scan_loop_frame[OF s] have b1: "clo p1 = clo p" "cup p1 = cup p"
    by (simp_all add: scan_frame_fields)
  from ret s have "Inr (finish isolated_presolve subst_presolve ?lk (p1, w1) nxt fill_level) =
      (Inr (p', nxt', fl') :: error + prob \<times> 'a log \<times> int)"
    by (cases c) (simp_all add: presolve_def Let_def)
  then have "fst (finish isolated_presolve subst_presolve ?lk (p1, w1) nxt fill_level) = p'"
    by simp
  with finish_keeps_bounds[OF iso sub, of ?lk p1 w1 nxt fill_level] b1
  have "clo p' = clo p \<and> cup p' = cup p" by simp
  with own_loops_keep_bounds[of lk E lk p w imf acts] show ?thesis by simp
qed

theorem presolve_keeps_column_bounds_witness:
  "presolve E0 no_isolated no_subst P0 [] 0 = Inr (row_infeasible P0 1, [], 0) \<and>
   clo (row_infeasible P0 1) = clo P0 \<and> cup (row_infeasible P0 1) = cup P0"
proof -
  have i: "\<forall>q r n. clo (fst (no_isolated q r n)) = clo q \<and> cup (fst (no_isolated q r n)) = cup q"
    by (simp add: no_isolated_def)
  have s: "\<forall>q f n l. clo (fst (no_subst q f n l)) = clo q \<and> cup (fst (no_subst q f n l)) = cup q"
    by (simp add: no_subst_def)
  from presolve_keeps_column_bounds[OF i s presolve_P0] presolve_P0
  show ?thesis by simp
qed

subsection \<open>C10: an isolated row\<close>

lemma eliminate_loop_isolated:
  "eliminate_loop lk s = (Some r, s') \<Longrightarrow>
     \<exists>pre j post. lk = pre @ j # post \<and> eliminate_loop pre s = (None, s') \<and>
       hincol (fst s') ! j = 1 \<and> 0 \<le> fst (snd s') ! j \<and>
       r = hrow (fst s') ! (mcstrt (fst s') ! j) \<and> isolated_n (fst s') r = hinrow (fst s') ! r"
proof (induction lk arbitrary: s)
  case Nil
  then show ?case by simp
next
  case (Cons j js)
  show ?case
  proof (cases "hincol (fst s) ! j = 1 \<and> fst (snd s) ! j \<ge> 0")
    case False
    with Cons.prems have "eliminate_loop js s = (Some r, s')" by (auto simp: Let_def)
    from Cons.IH[OF this] obtain pre j' post where
      h: "js = pre @ j' # post" "eliminate_loop pre s = (None, s')"
         "hincol (fst s') ! j' = 1" "0 \<le> fst (snd s') ! j'"
         "r = hrow (fst s') ! (mcstrt (fst s') ! j')" "isolated_n (fst s') r = hinrow (fst s') ! r"
      by blast
    from h(2) False have "eliminate_loop (j # pre) s = (None, s')" by (auto simp: Let_def)
    with h show ?thesis
      by (intro exI[of _ "j # pre"] exI[of _ j'] exI[of _ post]) simp
  next
    case True
    note q = this
    let ?row = "hrow (fst s) ! (mcstrt (fst s) ! j)"
    show ?thesis
    proof (cases "isolated_n (fst s) ?row = hinrow (fst s) ! ?row")
      case True
      with q Cons.prems have "r = ?row" "s' = s" by (auto simp: Let_def)
      with q True show ?thesis
        by (intro exI[of _ "[]"] exI[of _ j] exI[of _ js]) auto
    next
      case False
      with q Cons.prems have "eliminate_loop js (eliminate j s) = (Some r, s')"
        by (simp add: Let_def)
      from Cons.IH[OF this] obtain pre j' post where
        h: "js = pre @ j' # post" "eliminate_loop pre (eliminate j s) = (None, s')"
           "hincol (fst s') ! j' = 1" "0 \<le> fst (snd s') ! j'"
           "r = hrow (fst s') ! (mcstrt (fst s') ! j')" "isolated_n (fst s') r = hinrow (fst s') ! r"
        by blast
      from h(2) q False have "eliminate_loop (j # pre) s = (None, s')" by (simp add: Let_def)
      with h show ?thesis
        by (intro exI[of _ "j # pre"] exI[of _ j'] exI[of _ post]) simp
    qed
  qed
qed

lemma finish_no_isolated_row:
  assumes "eliminate_loop lk (p, implied_free w, []) = (None, p2, imf2, actions)"
  shows "finish ip sp lk (p, w) nxt fl =
           (if fl \<noteq> 0 then sp p2 imf2 (if actions \<noteq> [] then Inl actions # nxt else nxt) fl
            else (p2, if actions \<noteq> [] then Inl actions # nxt else nxt, fl))"
  using assms by (simp add: finish_def Let_def)

lemma finish_isolated_row:
  assumes "eliminate_loop lk (p, implied_free w, []) = (Some r, p2, imf2, actions)"
    and "next1 = (if actions \<noteq> [] then Inl actions # nxt else nxt)"
    and "ip p2 r next1 = (p3, res)"
  shows "finish ip sp lk (p, w) nxt fl =
           (if fl \<noteq> 0 then sp p3 imf2 (case res of None \<Rightarrow> next1 | Some nextX \<Rightarrow> nextX) fl
            else (p3, case res of None \<Rightarrow> next1 | Some nextX \<Rightarrow> nextX, fl))"
proof -
  have el: "eliminate_loop lk (fst (p, w), implied_free (snd (p, w)), []) = (Some r, p2, imf2, actions)"
    using assms(1) by simp
  have n1: "(if snd (snd (snd (Some r, p2, imf2, actions))) \<noteq> []
             then Inl (snd (snd (snd (Some r, p2, imf2, actions)))) # nxt else nxt) = next1"
    using assms(2) by simp
  have "finish ip sp lk (p, w) nxt fl =
          (if fl \<noteq> 0
           then sp (fst (case res of None \<Rightarrow> (p3, next1) | Some nextX \<Rightarrow> (p3, nextX))) imf2
                  (snd (case res of None \<Rightarrow> (p3, next1) | Some nextX \<Rightarrow> (p3, nextX))) fl
           else (fst (case res of None \<Rightarrow> (p3, next1) | Some nextX \<Rightarrow> (p3, nextX)),
                 snd (case res of None \<Rightarrow> (p3, next1) | Some nextX \<Rightarrow> (p3, nextX)), fl))"
    unfolding finish_def Let_def el n1
    by (cases "fl = 0") (simp_all add: assms(3))
  then show ?thesis by (cases res) simp_all
qed

text \<open>
  Claim C10: the elimination loop stops at the first accepted singleton column whose row
  is isolated; the state it returns is the state after the columns before that one, so
  no later column of the worklist is eliminated; and the isolated-constraint handler is
  applied once, to that row and that state. When the loop finds no isolated row the
  handler is not applied at all.
\<close>

theorem isolated_row_ends_elimination:
  "(eliminate_loop lk (p, implied_free w, []) = (Some r, p2, imf2, actions) \<and>
    next1 = (if actions \<noteq> [] then Inl actions # nxt else nxt) \<and>
    ip p2 r next1 = (p3, res)
    \<longrightarrow> (\<exists>pre j post. lk = pre @ j # post \<and>
           eliminate_loop pre (p, implied_free w, []) = (None, p2, imf2, actions) \<and>
           hincol p2 ! j = 1 \<and> 0 \<le> imf2 ! j \<and> r = hrow p2 ! (mcstrt p2 ! j) \<and>
           isolated_n p2 r = hinrow p2 ! r) \<and>
        finish ip sp lk (p, w) nxt fl =
           (if fl \<noteq> 0 then sp p3 imf2 (case res of None \<Rightarrow> next1 | Some nextX \<Rightarrow> nextX) fl
            else (p3, case res of None \<Rightarrow> next1 | Some nextX \<Rightarrow> nextX, fl))) \<and>
   (eliminate_loop lk (p, implied_free w, []) = (None, p2, imf2, actions)
    \<longrightarrow> finish ip sp lk (p, w) nxt fl =
           (if fl \<noteq> 0 then sp p2 imf2 (if actions \<noteq> [] then Inl actions # nxt else nxt) fl
            else (p2, if actions \<noteq> [] then Inl actions # nxt else nxt, fl)))"
  using eliminate_loop_isolated[of lk "(p, implied_free w, [])" r "(p2, imf2, actions)"]
    finish_isolated_row[of lk p w r p2 imf2 actions next1 nxt ip p3 res sp fl]
    finish_no_isolated_row[of lk p w p2 imf2 actions ip sp nxt fl]
  by (simp only: fst_conv snd_conv) blast

lemma eliminate_loop_P2:
  "eliminate_loop [0, 1] (P2, implied_free W2, []) = (Some 0, P2, [0, -1], [])"
  by (simp add: P2_sel W_sel isolated_n_def row_entries_def list_eval)

theorem isolated_row_ends_elimination_witness:
  "eliminate_loop [0, 1] (P2, implied_free W2, []) = (Some 0, P2, [0, -1], []) \<and>
   no_isolated P2 0 [] = (P2, None) \<and>
   finish no_isolated no_subst [0, 1] (P2, W2) [] 0 = (P2, [], 0) \<and>
   eliminate_loop [0, 1, 2] (P0, implied_free W0, []) = (None, P0, [0, -1, -1], []) \<and>
   finish no_isolated no_subst [0, 1, 2] (P0, W0) [] 0 = (P0, [], 0)"
proof -
  have n: "([] :: unit log) = (if ([] :: action list) \<noteq> [] then Inl [] # [] else [])" by simp
  have i: "no_isolated P2 0 [] = (P2, None)" by (simp add: no_isolated_def)
  have e0: "eliminate_loop [0, 1, 2] (P0, implied_free W0, []) = (None, P0, [0, -1, -1], [])"
    unfolding pass_P0 by (simp add: W_sel)
  from isolated_row_ends_elimination[of "[0, 1]" P2 W2 0 P2 "[0, -1]" "[]" "[]" "[]" no_isolated P2 None
      no_subst 0] eliminate_loop_P2 n i
  have f1: "finish no_isolated no_subst [0, 1] (P2, W2) [] 0 = (P2, [], 0)" by simp
  from isolated_row_ends_elimination[of "[0, 1, 2]" P0 W0 0 P0 "[0, -1, -1]" "[]" "[]" "[]" no_isolated P0 None
      no_subst 0] e0
  have f2: "finish no_isolated no_subst [0, 1, 2] (P0, W0) [] 0 = (P0, [], 0)" by simp
  from eliminate_loop_P2 i f1 e0 f2 show ?thesis by simp
qed

subsection \<open>C4: the costs of an eliminated column\<close>

lemma fst_spread_entry:
  "fst (spread_entry p j costj a k cs) =
     (if hcol p ! k \<noteq> j
      then (fst cs)[hcol p ! k := fst cs ! (hcol p ! k) + costj * (- (rowels p ! k) / a)]
      else fst cs)"
  by (simp add: spread_entry_def Let_def)

lemma length_fold_spread:
  "length (fst (fold (spread_entry p j costj a) ks cs)) = length (fst cs)"
  by (induction ks arbitrary: cs) (simp_all add: fst_spread_entry)

lemma nth_fold_spread:
  "i < length (fst cs) \<Longrightarrow>
   fst (fold (spread_entry p j costj a) ks cs) ! i =
     fst cs ! i + (\<Sum>k\<leftarrow>ks. if hcol p ! k = i \<and> hcol p ! k \<noteq> j
                              then costj * (- (rowels p ! k) / a) else 0)"
proof (induction ks arbitrary: cs)
  case Nil
  then show ?case by simp
next
  case (Cons k ks)
  let ?cs = "spread_entry p j costj a k cs"
  from Cons.prems have l: "i < length (fst ?cs)" by (simp add: fst_spread_entry)
  have "fst ?cs ! i = fst cs ! i + (if hcol p ! k = i \<and> hcol p ! k \<noteq> j
                              then costj * (- (rowels p ! k) / a) else 0)"
    using Cons.prems by (simp add: fst_spread_entry nth_list_update)
  with Cons.IH[OF l] show ?case by simp
qed

lemma sum_list_single:
  "distinct (map f ks) \<Longrightarrow> k0 \<in> set ks \<Longrightarrow>
   (\<Sum>k\<leftarrow>ks. if f k = f k0 then g k else (0::real)) = g k0"
proof (induction ks)
  case Nil
  then show ?case by simp
next
  case (Cons k ks)
  show ?case
  proof (cases "k = k0")
    case True
    from Cons.prems(1) have "f k \<notin> f ` set ks" by simp
    then have "\<forall>k'\<in>set ks. f k' \<noteq> f k" by (metis imageI)
    then have "(\<Sum>k'\<leftarrow>ks. if f k' = f k then g k' else 0) = 0"
      by (induction ks) simp_all
    with True show ?thesis by simp
  next
    case False
    with Cons.prems have in_ks: "k0 \<in> set ks" and d: "distinct (map f ks)" by simp_all
    from Cons.prems(1) have "f k \<notin> f ` set ks" by simp
    with in_ks have "f k \<noteq> f k0" by (metis imageI)
    with Cons.IH[OF d in_ks] show ?thesis by simp
  qed
qed

lemma sum_update:
  assumes "m < n" "length c = n"
  shows "(\<Sum>i<n. c[m := v] ! i * x i) = (\<Sum>i<n. c ! i * (x i :: real)) + (v - c ! m) * x m"
proof -
  have m: "m \<in> {..<n}" "finite {..<n}" using assms by simp_all
  have "(\<Sum>i<n. c[m := v] ! i * x i) = c[m := v] ! m * x m + (\<Sum>i\<in>{..<n} - {m}. c[m := v] ! i * x i)"
    by (rule sum.remove[OF m(2) m(1)])
  also have "(\<Sum>i\<in>{..<n} - {m}. c[m := v] ! i * x i) = (\<Sum>i\<in>{..<n} - {m}. c ! i * x i)"
    by (rule sum.cong) simp_all
  also have "c[m := v] ! m = v" using assms by simp
  finally have 1: "(\<Sum>i<n. c[m := v] ! i * x i) = v * x m + (\<Sum>i\<in>{..<n} - {m}. c ! i * x i)" .
  have 2: "(\<Sum>i<n. c ! i * x i) = c ! m * x m + (\<Sum>i\<in>{..<n} - {m}. c ! i * x i)"
    by (rule sum.remove[OF m(2) m(1)])
  from 1 2 show ?thesis by (simp add: algebra_simps)
qed

lemma sum_fold_spread:
  assumes "\<forall>k\<in>set ks. hcol p ! k < n" "length (fst cs) = n"
  shows "(\<Sum>i<n. fst (fold (spread_entry p j costj a) ks cs) ! i * x i) =
         (\<Sum>i<n. fst cs ! i * x i) +
         (\<Sum>k\<leftarrow>ks. if hcol p ! k \<noteq> j then costj * (- (rowels p ! k) / a) * x (hcol p ! k) else 0)"
  using assms
proof (induction ks arbitrary: cs)
  case Nil
  then show ?case by simp
next
  case (Cons k ks)
  let ?cs = "spread_entry p j costj a k cs"
  from Cons.prems have l: "length (fst ?cs) = n" and b: "\<forall>k\<in>set ks. hcol p ! k < n"
    and kb: "hcol p ! k < n"
    by (simp_all add: fst_spread_entry)
  have step: "(\<Sum>i<n. fst ?cs ! i * x i) = (\<Sum>i<n. fst cs ! i * x i) +
      (if hcol p ! k \<noteq> j then costj * (- (rowels p ! k) / a) * x (hcol p ! k) else 0)"
    using sum_update[OF kb Cons.prems(2), of "fst cs ! (hcol p ! k) + costj * (- (rowels p ! k) / a)" x]
    by (simp add: fst_spread_entry)
  from Cons.IH[OF b l] step show ?case by simp
qed

lemma eliminate_cost_fields:
  assumes "nonzero_cost p j row"
  shows "cost (fst (eliminate_cost j row p)) =
           (fst (spread_costs p j (cost p ! j) (colels p ! (mcstrt p ! j))
                   (row_entries p row)))[j := 0]"
    and "dobias (fst (eliminate_cost j row p)) =
           dobias p + cost p ! j * rlo p ! row / colels p ! (mcstrt p ! j)"
    and "ncols (fst (eliminate_cost j row p)) = ncols p"
  using assms by (simp_all add: eliminate_cost_def Let_def change_bias_def)

text \<open>
  Claim C4: when column \<open>j\<close> with nonzero cost is eliminated through its equality row
  with right-hand side \<open>rlo[row]\<close> and coefficient \<open>a\<close>, every other column \<open>k\<close> of the row
  gets \<open>cost[k] + cost[j] * (-coeff_k / a)\<close>, the bias grows by \<open>cost[j] * rlo[row] / a\<close>,
  the cost of \<open>j\<close> becomes zero, and for every assignment that satisfies the row as an
  equation the objective with the bias is what it was. The row is taken to be
  well formed: its columns are distinct and below \<open>ncols\<close>, and \<open>j\<close> is among them with
  the coefficient the column view has.
\<close>

theorem eliminated_cost_conserved:
  assumes nz: "nonzero_cost p j row"
    and row: "row = hrow p ! (mcstrt p ! j)"
    and a: "a = colels p ! (mcstrt p ! j)" "a \<noteq> 0"
    and ks: "ks = row_entries p row"
    and cols: "\<forall>k\<in>set ks. hcol p ! k < ncols p" "length (cost p) = ncols p"
    and dist: "distinct (map (\<lambda>k. hcol p ! k) ks)"
    and kj: "kj \<in> set ks" "hcol p ! kj = j" "rowels p ! kj = a"
    and p': "p' = fst (eliminate j (p, imf, acts))"
  shows "(\<forall>k\<in>set ks. hcol p ! k \<noteq> j \<longrightarrow>
            cost p' ! (hcol p ! k) = cost p ! (hcol p ! k) + cost p ! j * (- (rowels p ! k) / a)) \<and>
         dobias p' = dobias p + cost p ! j * rlo p ! row / a \<and>
         cost p' ! j = 0 \<and>
         (\<forall>x. row_value p row x = rlo p ! row \<longrightarrow> objective p' x = objective p x)"
proof -
  let ?n = "ncols p"
  let ?cj = "cost p ! j"
  let ?c = "fst (spread_costs p j ?cj a ks)"
  from kj cols have jn: "j < ?n" by auto
  have len: "length ?c = ?n"
    unfolding spread_costs_def using cols(2) by (simp add: length_fold_spread)
  have cost': "cost p' = ?c[j := 0]" and bias': "dobias p' = dobias p + ?cj * rlo p ! row / a"
    and n': "ncols p' = ?n"
    using eliminate_cost_fields[OF nz] p' row a(1) ks by (simp_all add: eliminate_kept)
  have others: "\<forall>k\<in>set ks. hcol p ! k \<noteq> j \<longrightarrow>
      cost p' ! (hcol p ! k) = cost p ! (hcol p ! k) + ?cj * (- (rowels p ! k) / a)"
  proof (intro ballI impI)
    fix k assume k: "k \<in> set ks" and nj: "hcol p ! k \<noteq> j"
    from k cols have kn: "hcol p ! k < length (fst (cost p, [] :: real list))" by simp
    have "?c ! (hcol p ! k) = cost p ! (hcol p ! k) +
        (\<Sum>k'\<leftarrow>ks. if hcol p ! k' = hcol p ! k \<and> hcol p ! k' \<noteq> j
                     then ?cj * (- (rowels p ! k') / a) else 0)"
      unfolding spread_costs_def using nth_fold_spread[OF kn, of p j ?cj a ks] by simp
    also have "(\<Sum>k'\<leftarrow>ks. if hcol p ! k' = hcol p ! k \<and> hcol p ! k' \<noteq> j
                     then ?cj * (- (rowels p ! k') / a) else 0) =
               (\<Sum>k'\<leftarrow>ks. if hcol p ! k' = hcol p ! k then ?cj * (- (rowels p ! k') / a) else 0)"
      using nj by (intro arg_cong[where f = sum_list] map_cong) auto
    also have "\<dots> = ?cj * (- (rowels p ! k) / a)"
      by (rule sum_list_single[OF dist k])
    finally show "cost p' ! (hcol p ! k) = cost p ! (hcol p ! k) + ?cj * (- (rowels p ! k) / a)"
      using cost' nj by simp
  qed
  have zero: "cost p' ! j = 0" using cost' len jn by simp
  have cons: "\<forall>x. row_value p row x = rlo p ! row \<longrightarrow> objective p' x = objective p x"
  proof (intro allI impI)
    fix x assume rv: "row_value p row x = rlo p ! row"
    let ?rest = "\<Sum>k\<leftarrow>ks. if hcol p ! k \<noteq> j then rowels p ! k * x (hcol p ! k) else 0"
    have split: "(\<Sum>k\<leftarrow>ks. rowels p ! k * x (hcol p ! k)) =
        ?rest + (\<Sum>k\<leftarrow>ks. if hcol p ! k = hcol p ! kj then rowels p ! k * x j else 0)"
      using kj(2) by (induction ks) auto
    have "(\<Sum>k\<leftarrow>ks. if hcol p ! k = hcol p ! kj then rowels p ! k * x j else 0) = rowels p ! kj * x j"
      by (rule sum_list_single[OF dist kj(1)])
    with split rv ks kj(3) have rest: "?rest = rlo p ! row - a * x j"
      by (simp add: row_value_def)
    have jc: "?c ! j = ?cj"
    proof -
      from jn cols have "j < length (fst (cost p, [] :: real list))" by simp
      from nth_fold_spread[OF this, of p j ?cj a ks]
      have "?c ! j = ?cj + (\<Sum>k\<leftarrow>ks. if hcol p ! k = j \<and> hcol p ! k \<noteq> j
                                 then ?cj * (- (rowels p ! k) / a) else 0)"
        by (simp add: spread_costs_def)
      also have "(\<Sum>k\<leftarrow>ks. if hcol p ! k = j \<and> hcol p ! k \<noteq> j
                                 then ?cj * (- (rowels p ! k) / a) else 0) = 0"
        by (induction ks) auto
      finally show ?thesis by simp
    qed
    have "(\<Sum>i<?n. cost p' ! i * x i) = (\<Sum>i<?n. ?c ! i * x i) + (0 - ?c ! j) * x j"
      unfolding cost' by (rule sum_update[OF jn len])
    also have "(\<Sum>i<?n. ?c ! i * x i) = (\<Sum>i<?n. cost p ! i * x i) +
        (\<Sum>k\<leftarrow>ks. if hcol p ! k \<noteq> j then ?cj * (- (rowels p ! k) / a) * x (hcol p ! k) else 0)"
      unfolding spread_costs_def using sum_fold_spread[OF cols(1), of "(cost p, [])" j ?cj a x] cols(2)
      by simp
    also have "(\<Sum>k\<leftarrow>ks. if hcol p ! k \<noteq> j then ?cj * (- (rowels p ! k) / a) * x (hcol p ! k) else 0)
        = ?cj * (- 1 / a) * ?rest"
      by (induction ks) (auto simp: algebra_simps)
    finally have "(\<Sum>i<?n. cost p' ! i * x i) =
        (\<Sum>i<?n. cost p ! i * x i) + ?cj * (- 1 / a) * (rlo p ! row - a * x j) - ?cj * x j"
      using rest jc by simp
    also have "?cj * (- 1 / a) * (rlo p ! row - a * x j) = ?cj * x j - ?cj * rlo p ! row / a"
      using a(2) by (simp add: field_simps)
    finally show "objective p' x = objective p x"
      by (simp add: objective_def n' bias')
  qed
  from others bias' zero cons show ?thesis by blast
qed
theorem eliminated_cost_conserved_witness:
  "nonzero_cost P0 1 0 \<and> colels P0 ! (mcstrt P0 ! 1) \<noteq> 0 \<and>
   hcol P0 ! 0 < ncols P0 \<and> hcol P0 ! 1 < ncols P0 \<and> length (cost P0) = ncols P0 \<and>
   distinct (map (\<lambda>k. hcol P0 ! k) [0, 1]) \<and> rowels P0 ! 1 = colels P0 ! (mcstrt P0 ! 1) \<and>
   row_value P0 0 X0 = rlo P0 ! 0 \<and>
   cost (fst (eliminate 1 (P0, [-1, 0, -1], []))) ! 0 = -3 \<and>
   dobias (fst (eliminate 1 (P0, [-1, 0, -1], []))) = 15 \<and>
   cost (fst (eliminate 1 (P0, [-1, 0, -1], []))) ! 1 = 0 \<and>
   objective (fst (eliminate 1 (P0, [-1, 0, -1], []))) X0 = objective P0 X0"
proof -
  let ?ks = "row_entries P0 0"
  have ks: "?ks = [0, 1]" by (simp add: row_entries_def P0_def two_rows_sel list_eval)
  have nz: "nonzero_cost P0 1 0" by (simp add: nonzero_cost_def P0_def two_rows_sel)
  have row: "0 = hrow P0 ! (mcstrt P0 ! 1)" by (simp add: P0_def two_rows_sel)
  have a: "1 = colels P0 ! (mcstrt P0 ! 1)" "(1::real) \<noteq> 0" by (simp_all add: P0_def two_rows_sel)
  have cols: "\<forall>k\<in>set ?ks. hcol P0 ! k < ncols P0" "length (cost P0) = ncols P0"
    unfolding ks by (simp_all add: P0_def two_rows_sel)
  have dist: "distinct (map (\<lambda>k. hcol P0 ! k) ?ks)" unfolding ks by (simp add: P0_def two_rows_sel)
  have kj: "1 \<in> set ?ks" "hcol P0 ! 1 = 1" "rowels P0 ! 1 = 1"
    unfolding ks by (simp_all add: P0_def two_rows_sel)
  have rv: "row_value P0 0 X0 = rlo P0 ! 0"
    unfolding row_value_def ks by (simp add: P0_def two_rows_sel X0_def)
  have k0: "0 \<in> set ?ks" "hcol P0 ! 0 \<noteq> 1" unfolding ks by (simp_all add: P0_def two_rows_sel)
  from eliminated_cost_conserved[OF nz row a refl cols dist kj refl, of "[-1, 0, -1]" "[]"] rv k0
  have "cost (fst (eliminate 1 (P0, [-1, 0, -1], []))) ! (hcol P0 ! 0) =
          cost P0 ! (hcol P0 ! 0) + cost P0 ! 1 * (- (rowels P0 ! 0) / 1)"
    and "dobias (fst (eliminate 1 (P0, [-1, 0, -1], []))) = dobias P0 + cost P0 ! 1 * rlo P0 ! 0 / 1"
    and "cost (fst (eliminate 1 (P0, [-1, 0, -1], []))) ! 1 = 0"
    and "objective (fst (eliminate 1 (P0, [-1, 0, -1], []))) X0 = objective P0 X0"
    by blast+
  with nz rv show ?thesis by (simp add: P0_def two_rows_sel)
qed

end
